theory Spec2Isabelle
  imports Main "HOL-Library.Multiset" "HOL-Library.Char_ord" "HOL-Library.List_Lexorder"
begin

section \<open>Strings\<close>

text \<open>
  A JavaScript string is a sequence of UTF-16 code units. It is modelled as a
  \<^typ>\<open>string\<close>, each \<^typ>\<open>char\<close> standing for a code unit below 256; code
  units from 256 on are outside the model.
\<close>

text \<open>
  White space and line terminators, as \<open>String.prototype.trim\<close> and the regular
  expression class \<open>\s\<close> read them: TAB, LF, VT, FF, CR, SPACE and NBSP (the others
  are code units from 256 on).
\<close>

definition isSpace :: "char \<Rightarrow> bool" where
  "isSpace c = (of_char c \<in> {9::nat, 10, 11, 12, 13, 32, 160})"

text \<open>The class \<open>\d\<close>: the ten ASCII digits.\<close>

definition isDigit :: "char \<Rightarrow> bool" where
  "isDigit c = (c \<in> set ''0123456789'')"

text \<open>\<open>s.trim()\<close>\<close>

definition trim :: "string \<Rightarrow> string" where
  "trim s = rev (dropWhile isSpace (rev (dropWhile isSpace s)))"

text \<open>\<open>s.startsWith(p)\<close> and \<open>s.endsWith(p)\<close>\<close>

definition startsWith :: "string \<Rightarrow> string \<Rightarrow> bool" where
  "startsWith s p = (take (length p) s = p)"

definition endsWith :: "string \<Rightarrow> string \<Rightarrow> bool" where
  "endsWith s p = (length p \<le> length s \<and> drop (length s - length p) s = p)"

text \<open>
  \<open>s.split(c)\<close> for a separator of one character: a string with \<open>k\<close> separators
  gives \<open>k + 1\<close> pieces, and the empty string gives one empty piece.
\<close>

fun splitOn :: "char \<Rightarrow> string \<Rightarrow> string list" where
  "splitOn c [] = [[]]"
| "splitOn c (x # xs) =
     (if x = c then [] # splitOn c xs
      else (case splitOn c xs of w # ws \<Rightarrow> (x # w) # ws | [] \<Rightarrow> [[x]]))"

text \<open>
  \<open>s.split(/\s+/)\<close>: the pieces between maximal runs of white space. White space
  at either end of \<open>s\<close> leaves an empty piece there, as in JavaScript.
\<close>

function splitWs :: "string \<Rightarrow> string list" where
  "splitWs s =
     (let tok = takeWhile (\<lambda>c. \<not> isSpace c) s;
          rest = dropWhile (\<lambda>c. \<not> isSpace c) s
      in if rest = [] then [tok] else tok # splitWs (dropWhile isSpace rest))"
  by pat_completeness auto
termination
proof (relation "measure length")
  show "wf (measure length)" by simp
next
  fix s tok rest :: string
  assume rest: "rest = dropWhile (\<lambda>c. \<not> isSpace c) s" and ne: "rest \<noteq> []"
  from ne obtain c cs where c: "rest = c # cs" by (cases rest) auto
  from rest c have "dropWhile (\<lambda>c. \<not> isSpace c) s = c # cs" by simp
  then have "isSpace c" by (simp add: dropWhile_eq_Cons_conv)
  with c have "length (dropWhile isSpace rest) \<le> length cs"
    by (simp add: length_dropWhile_le)
  also have "length cs < length rest" using c by simp
  also have "length rest \<le> length s" using rest by (simp add: length_dropWhile_le)
  finally show "(dropWhile isSpace rest, s) \<in> measure length" by simp
qed

text \<open>\<open>parts.join(sep)\<close>\<close>

fun joinWith :: "string \<Rightarrow> string list \<Rightarrow> string" where
  "joinWith sep [] = []"
| "joinWith sep [x] = x"
| "joinWith sep (x # y # ys) = x @ sep @ joinWith sep (y # ys)"

text \<open>
  \<open>s.padStart(maxLength, fillString)\<close>: \<open>s\<close> itself when it is long enough or the
  filler is empty, otherwise the filler repeated and cut to the missing length, then \<open>s\<close>.
\<close>

definition padStart :: "nat \<Rightarrow> string \<Rightarrow> string \<Rightarrow> string" where
  "padStart maxLength fillString s =
     (if maxLength \<le> length s \<or> fillString = [] then s
      else take (maxLength - length s)
             (concat (replicate (maxLength - length s) fillString)) @ s)"

text \<open>
  \<open>s.replace(pat, rep)\<close> with a string pattern: the first occurrence of \<open>pat\<close> in
  \<open>s\<close>, scanning from the left, is replaced, and nothing else.
\<close>

fun replaceFirst :: "string \<Rightarrow> string \<Rightarrow> string \<Rightarrow> string" where
  "replaceFirst pat rep [] = (if pat = [] then rep else [])"
| "replaceFirst pat rep (c # cs) =
     (if startsWith (c # cs) pat then rep @ drop (length pat) (c # cs)
      else c # replaceFirst pat rep cs)"

section \<open>The regular expressions of the route\<close>

text \<open>
  Both regular expressions of the source are sequences of literals and of one
  character class under a quantifier (\<open>+\<close> or \<open>{n}\<close>), some of them in a capturing
  group, and both end in \<open>$\<close>. The classes are \<open>\d\<close> and \<open>[^_]\<close>.
\<close>

datatype cls = Digit | NotUnderscore

fun inCls :: "cls \<Rightarrow> char \<Rightarrow> bool" where
  "inCls Digit c = isDigit c"
| "inCls NotUnderscore c = (c \<noteq> CHR ''_'')"

text \<open>
  \<open>Lit l\<close> is the literal text \<open>l\<close>; \<open>Rep1 c cap\<close> is \<open>c+\<close> and \<open>RepN n c cap\<close> is
  \<open>c{n}\<close>, in a capturing group when \<open>cap\<close> holds.
\<close>

datatype rx = Lit string | Rep1 cls bool | RepN nat cls bool

text \<open>
  The ways one element can consume a prefix of the input, in the order a backtracking
  matcher tries them: \<open>+\<close> is greedy, so the longest run first, down to one character.
  Each way gives the captures of the element and the rest of the input.
\<close>

fun elemSplits :: "rx \<Rightarrow> string \<Rightarrow> (string list \<times> string) list" where
  "elemSplits (Lit l) s = (if startsWith s l then [([], drop (length l) s)] else [])"
| "elemSplits (Rep1 c cap) s =
     map (\<lambda>k. (if cap then [take k s] else [], drop k s))
       (rev [1 ..< Suc (length (takeWhile (inCls c) s))])"
| "elemSplits (RepN n c cap) s =
     (if n \<le> length s \<and> list_all (inCls c) (take n s)
      then [(if cap then [take n s] else [], drop n s)] else [])"

text \<open>
  All the matches of a pattern that start at the beginning of the input and reach its
  end (the \<open>$\<close> of both patterns), in backtracking order; each is the list of captures.
\<close>

primrec matchAll :: "rx list \<Rightarrow> string \<Rightarrow> string list list" where
  "matchAll [] s = (if s = [] then [[]] else [])"
| "matchAll (e # es) s =
     concat (map (\<lambda>(cs, rest). map (\<lambda>ds. cs @ ds) (matchAll es rest)) (elemSplits e s))"

fun firstSome :: "('a \<Rightarrow> 'b option) \<Rightarrow> 'a list \<Rightarrow> 'b option" where
  "firstSome f [] = None"
| "firstSome f (x # xs) = (case f x of Some y \<Rightarrow> Some y | None \<Rightarrow> firstSome f xs)"

text \<open>
  \<open>s.match(re)\<close> for a pattern ending in \<open>$\<close>, without the \<open>g\<close> flag: the captures
  of the first match, or \<open>None\<close> for \<open>null\<close>. A pattern that begins with \<open>^\<close>
  (\<open>anchored\<close>) is tried at position 0 only, any other at every position from the left.
\<close>

definition firstOf :: "'a list \<Rightarrow> 'a option" where
  "firstOf xs = (case xs of [] \<Rightarrow> None | r # _ \<Rightarrow> Some r)"

definition regexExec :: "bool \<Rightarrow> rx list \<Rightarrow> string \<Rightarrow> string list option" where
  "regexExec anchored pat s =
     firstSome (\<lambda>i. firstOf (matchAll pat (drop i s)))
       (if anchored then [0] else [0 ..< Suc (length s)])"

section \<open>Data model\<close>

record JumpFileEvent =
  sessionName :: string
  viewName :: string
  clipNumber :: string
  camera :: string
  frameNumber :: string
  eventName :: string
  fullLine :: string

text \<open>The fields \<open>parseFileName\<close> fills (a \<open>Partial<JumpFileMetadata>\<close>).\<close>

record FileNameMetadata =
  project :: string
  vehicle :: string
  date :: string
  time :: string
  swVersion :: string
  createDate :: string
  datacoNumber :: string
  sessionName :: string

text \<open>
  \<open>JumpFileData\<close>: the metadata of the name, the file's name, path, size and
  modification time (milliseconds), and the events with their projections.
\<close>

record JumpFileData = FileNameMetadata +
  fileName :: string
  filePath :: string
  fileSize :: nat
  lastModified :: int
  events :: "JumpFileEvent list"
  eventCount :: nat
  uniqueEvents :: "string list"
  uniqueCameras :: "string list"
  uniqueClips :: "string list"

section \<open>parseFileName\<close>

text \<open>\<open>/^([^_]+)_([^_]+)_(\d{6})_(\d{6})_(\d+)_(\d{6})_DATACO-(\d+)\.jump$/\<close>\<close>

definition fileNamePattern :: "rx list" where
  "fileNamePattern =
     [Rep1 NotUnderscore True, Lit ''_'', Rep1 NotUnderscore True, Lit ''_'',
      RepN 6 Digit True, Lit ''_'', RepN 6 Digit True, Lit ''_'',
      Rep1 Digit True, Lit ''_'', RepN 6 Digit True, Lit ''_DATACO-'',
      Rep1 Digit True, Lit ''.jump'']"

definition formatDate :: "string \<Rightarrow> string" where
  "formatDate dateStr =
     (if length dateStr = 6
      then (let day = take 2 dateStr;
                month = take 2 (drop 2 dateStr);
                year = ''20'' @ take 2 (drop 4 dateStr)
            in day @ ''/'' @ month @ ''/'' @ year)
      else dateStr)"

definition formatTime :: "string \<Rightarrow> string" where
  "formatTime timeStr =
     (if length timeStr = 6
      then (let hours = take 2 timeStr;
                minutes = take 2 (drop 2 timeStr);
                seconds = take 2 (drop 4 timeStr)
            in hours @ '':'' @ minutes @ '':'' @ seconds)
      else timeStr)"

definition parseFileName :: "string \<Rightarrow> FileNameMetadata option" where
  "parseFileName fName =
     (case regexExec True fileNamePattern fName of
        Some [proj, veh, dat, tim, swv, cdat, dnum] \<Rightarrow>
          Some \<lparr> project = proj, vehicle = veh, date = formatDate dat,
                 time = formatTime tim, swVersion = swv, createDate = formatDate cdat,
                 datacoNumber = dnum,
                 sessionName = proj @ ''_'' @ veh @ ''_'' @ dat @ ''_'' @ tim @ ''_'' @ swv \<rparr>
      | _ \<Rightarrow> None)"

section \<open>parseJumpFileContent\<close>

text \<open>
  \<open>sessionName.replace(/[.*+?^${}()|[\]\\]/g, '\\$&')\<close>: a backslash is put before
  every regular-expression syntax character of the name.
\<close>

definition syntaxChars :: string where
  "syntaxChars = ''.*+?^${}()|[]'' @ [CHR 0x5C]"

fun escapeRegExp :: "string \<Rightarrow> string" where
  "escapeRegExp [] = []"
| "escapeRegExp (c # cs) =
     (if c \<in> set syntaxChars then CHR 0x5C # c # escapeRegExp cs else c # escapeRegExp cs)"

text \<open>
  What \<open>new RegExp\<close> reads in pattern text made of escaped syntax characters and of
  other characters: a backslash makes the character after it literal, and a character that
  is not a syntax character stands for itself.
\<close>

fun literalOf :: "string \<Rightarrow> string" where
  "literalOf [] = []"
| "literalOf [c] = [c]"
| "literalOf (b # c # cs) =
     (if b = CHR 0x5C then c # literalOf cs else b # literalOf (c # cs))"

text \<open>
  The pattern built for a session name: the escaped name, then
  \<open>_s\d+_s_([^_]+)_s\d+_([^_]+)$\<close>. The pattern has no \<open>^\<close>.
\<close>

definition trackPattern :: "string \<Rightarrow> rx list" where
  "trackPattern sName =
     [Lit (literalOf (escapeRegExp sName)), Lit ''_s'', Rep1 Digit False, Lit ''_s_'',
      Rep1 NotUnderscore True, Lit ''_s'', Rep1 Digit False, Lit ''_'',
      Rep1 NotUnderscore True]"

text \<open>One turn of the loop over the lines: the event of a line, or \<open>None\<close> when the
  line is skipped.\<close>

definition parseLine :: "string \<Rightarrow> string \<Rightarrow> JumpFileEvent option" where
  "parseLine sName line =
     (let trimmedLine = trim line in
      if trimmedLine = [] \<or> startsWith trimmedLine ''#'' then None
      else (case splitWs trimmedLine of
              trackfile # cam # frame # e # eventParts \<Rightarrow>
                (case regexExec False (trackPattern sName) trackfile of
                   Some [view, clip] \<Rightarrow>
                     Some \<lparr> JumpFileEvent.sessionName = sName, viewName = view,
                            clipNumber = padStart 4 ''0'' clip, camera = cam,
                            frameNumber = frame,
                            eventName = joinWith '' '' (e # eventParts),
                            fullLine = trimmedLine \<rparr>
                 | _ \<Rightarrow> None)
            | _ \<Rightarrow> None))"

fun parseLines :: "string \<Rightarrow> string list \<Rightarrow> JumpFileEvent list" where
  "parseLines sName [] = []"
| "parseLines sName (l # ls) =
     (case parseLine sName l of
        None \<Rightarrow> parseLines sName ls
      | Some ev \<Rightarrow> ev # parseLines sName ls)"

definition parseJumpFileContent :: "string \<Rightarrow> string \<Rightarrow> JumpFileEvent list" where
  "parseJumpFileContent content sName = parseLines sName (splitOn CHR 0x0A content)"

section \<open>The directory tree\<close>

text \<open>
  What the scanner reads from the file system. An entry of a directory is a
  subdirectory, a regular file, or something else (\<open>isDirectory()\<close> and \<open>isFile()\<close>
  both false). A directory is missing (\<open>existsSync\<close> is false), unreadable
  (\<open>readdirSync\<close> throws) or lists its entries. A file has its \<open>statSync\<close> result,
  size and modification time, and its text; \<open>None\<close> where the call throws.
\<close>

datatype fsEntry =
    DirEntry string dirState
  | FileEntry string "(nat \<times> int) option" "string option"
  | OtherEntry string
and dirState = Missing | Unreadable | Listing "fsEntry list"

text \<open>
  \<open>path.join(dirPath, name)\<close> for a normalized \<open>dirPath\<close> with no slash at its
  end and an entry name, which is all the program passes: the root is
  \<open>VOICE_TAGGING_PATH\<close> and every other path is the result of an earlier join. For
  such arguments the join is the concatenation with one slash; \<open>path.join\<close> would
  also normalize other arguments, which this definition does not.
\<close>

definition pathJoin :: "string \<Rightarrow> string \<Rightarrow> string" where
  "pathJoin dirPath name = dirPath @ ''/'' @ name"

text \<open>\<open>[...new Set(xs)]\<close>: the distinct elements in the order first seen.\<close>

definition uniq :: "'a list \<Rightarrow> 'a list" where
  "uniq xs = foldl (\<lambda>acc x. if x \<in> set acc then acc else acc @ [x]) [] xs"

section \<open>scanDirectory\<close>

text \<open>The record pushed for a file whose name parsed and whose reads succeeded.\<close>

definition makeFileData ::
  "string \<Rightarrow> string \<Rightarrow> FileNameMetadata \<Rightarrow> nat \<Rightarrow> int \<Rightarrow> string \<Rightarrow> JumpFileData" where
  "makeFileData name fullPath metadata sz mtime content =
     (let evs = parseJumpFileContent content (sessionName metadata) in
      \<lparr> project = project metadata, vehicle = vehicle metadata, date = date metadata,
        time = time metadata, swVersion = swVersion metadata,
        createDate = createDate metadata, datacoNumber = datacoNumber metadata,
        sessionName = sessionName metadata,
        fileName = name, filePath = fullPath, fileSize = sz, lastModified = mtime,
        events = evs, eventCount = length evs,
        uniqueEvents = uniq (map eventName evs),
        uniqueCameras = uniq (map camera evs),
        uniqueClips = uniq (map clipNumber evs) \<rparr>)"

text \<open>
  \<open>scanDirectory\<close> returns the records in traversal order. \<open>scanEntry\<close> is one turn
  of its loop over the entries and \<open>scanEntries\<close> the loop. A failing \<open>readdirSync\<close>
  is caught by the outer \<open>try\<close>, a failing \<open>statSync\<close> or \<open>readFileSync\<close> by the
  inner one.
\<close>

fun scanDirectory :: "string \<Rightarrow> dirState \<Rightarrow> string list \<Rightarrow> JumpFileData list"
and scanEntries :: "string \<Rightarrow> fsEntry list \<Rightarrow> string list \<Rightarrow> JumpFileData list"
and scanEntry :: "string \<Rightarrow> fsEntry \<Rightarrow> string list \<Rightarrow> JumpFileData list" where
  "scanDirectory dirPath Missing subs = []"
| "scanDirectory dirPath Unreadable subs = []"
| "scanDirectory dirPath (Listing entries) subs = scanEntries dirPath entries subs"
| "scanEntries dirPath [] subs = []"
| "scanEntries dirPath (e # es) subs =
     scanEntry dirPath e subs @ scanEntries dirPath es subs"
| "scanEntry dirPath (DirEntry name st) subs =
     scanDirectory (pathJoin dirPath name) st subs"
| "scanEntry dirPath (FileEntry name stats content) subs =
     (if endsWith name ''.jump'' then
        (case parseFileName name of
           None \<Rightarrow> []
         | Some metadata \<Rightarrow>
             if datacoNumber metadata = [] then []
             else if datacoNumber metadata \<notin> set subs then []
             else (case stats of
                     None \<Rightarrow> []
                   | Some (sz, mtime) \<Rightarrow>
                       (case content of
                          None \<Rightarrow> []
                        | Some text \<Rightarrow>
                            [makeFileData name (pathJoin dirPath name) metadata sz mtime text])))
      else [])"
| "scanEntry dirPath (OtherEntry name) subs = []"

section \<open>The GET handler\<close>

text \<open>
  \<open>Array.prototype.sort\<close> with a comparator: a stable insertion sort, \<open>x\<close> before
  \<open>y\<close> when \<open>cmp x y \<le> 0\<close>. For a consistent comparator this is the order every
  stable sort gives. Without a comparator the elements, all strings here, are compared
  by code units, which is \<^const>\<open>sort\<close> on the lexicographic order of \<^typ>\<open>string\<close>.
\<close>

fun insertBy :: "('a \<Rightarrow> 'a \<Rightarrow> int) \<Rightarrow> 'a \<Rightarrow> 'a list \<Rightarrow> 'a list" where
  "insertBy cmp x [] = [x]"
| "insertBy cmp x (y # ys) = (if cmp x y \<le> 0 then x # y # ys else y # insertBy cmp x ys)"

definition sortWith :: "('a \<Rightarrow> 'a \<Rightarrow> int) \<Rightarrow> 'a list \<Rightarrow> 'a list" where
  "sortWith cmp xs = foldr (insertBy cmp) xs []"

text \<open>\<open>xs[i]\<close>, \<open>undefined\<close> out of range, and \<open>v || d\<close> on a string or \<open>undefined\<close>.\<close>

definition elemAt :: "'a list \<Rightarrow> int \<Rightarrow> 'a option" where
  "elemAt xs i = (if 0 \<le> i \<and> i < int (length xs) then Some (xs ! nat i) else None)"

definition orDefault :: "string option \<Rightarrow> string \<Rightarrow> string" where
  "orDefault v d = (case v of None \<Rightarrow> d | Some s \<Rightarrow> if s = [] then d else s)"

record DateRange =
  earliest :: string
  latest :: string

record Summary =
  totalEvents :: nat
  uniqueEventTypes :: "string list"
  uniqueCameraTypes :: "string list"
  uniqueProjects :: "string list"
  uniqueVehicles :: "string list"
  dateRange :: DateRange

definition VOICE_TAGGING_PATH :: string where
  "VOICE_TAGGING_PATH = ''/mobileye/DC/Voice_Tagging''"

text \<open>\<open>subtasksParam.split(',').map(s => s.replace('DATACO-', ''))\<close>\<close>

definition normalizeSubtasks :: "string \<Rightarrow> string list" where
  "normalizeSubtasks subtasksParam =
     map (replaceFirst ''DATACO-'' '''') (splitOn CHR '','' subtasksParam)"

text \<open>The summary statistics and the date range the handler computes from the records.\<close>

definition makeSummary :: "JumpFileData list \<Rightarrow> Summary" where
  "makeSummary fs =
     (let allEvents = concat (map events fs);
          dates = filter (\<lambda>d. d \<noteq> []) (map date fs);
          sortedDates = sort dates
      in \<lparr> totalEvents = length allEvents,
           uniqueEventTypes = sort (uniq (map eventName allEvents)),
           uniqueCameraTypes = sort (uniq (map camera allEvents)),
           uniqueProjects = sort (uniq (map project fs)),
           uniqueVehicles = sort (uniq (map vehicle fs)),
           dateRange =
             \<lparr> earliest = orDefault (elemAt sortedDates 0) '''',
               latest = orDefault (elemAt sortedDates (int (length sortedDates) - 1)) '''' \<rparr> \<rparr>)"

text \<open>The names of the directories directly under the root, sorted.\<close>

fun readProjectFolders :: "dirState \<Rightarrow> string list" where
  "readProjectFolders (Listing entries) =
     sort (concat (map (\<lambda>e. case e of DirEntry name _ \<Rightarrow> [name] | _ \<Rightarrow> []) entries))"
| "readProjectFolders _ = []"

record FileSearchResponse =
  mainTicket :: string
  subtasks :: "string list"
  totalFiles :: nat
  projectFolders :: "string list"
  files :: "JumpFileData list"
  summary :: Summary

datatype httpError = BadRequest

text \<open>
  The handler, from the two query parameters (\<open>None\<close> when absent) and the state of the
  directory at \<open>VOICE_TAGGING_PATH\<close>. \<open>localeCompare\<close> is the platform's collation,
  taken as a parameter. Writing the scan log is left out.
\<close>

definition GET ::
  "(string \<Rightarrow> string \<Rightarrow> int) \<Rightarrow> dirState \<Rightarrow> string option \<Rightarrow> string option
     \<Rightarrow> httpError + FileSearchResponse" where
  "GET localeCompare root mainTicketParam subtasksParam =
     (case (mainTicketParam, subtasksParam) of
        (Some mt, Some sp) \<Rightarrow>
          if mt = [] \<or> sp = [] then Inl BadRequest
          else (let subs = normalizeSubtasks sp;
                    fs = scanDirectory VOICE_TAGGING_PATH root subs
                in Inr \<lparr> mainTicket = mt,
                         subtasks = map (\<lambda>s. ''DATACO-'' @ s) subs,
                         totalFiles = length fs,
                         projectFolders = readProjectFolders root,
                         files = sortWith (\<lambda>a b. localeCompare (fileName a) (fileName b)) fs,
                         summary = makeSummary fs \<rparr>)
      | _ \<Rightarrow> Inl BadRequest)"

section \<open>The filter and sort engine of the page\<close>

datatype sortDirection = Asc | Desc

record FilterState =
  selectedSubtasks :: "string list"
  selectedEventTypes :: "string list"
  selectedCameraTypes :: "string list"
  selectedProjects :: "string list"
  selectedVehicles :: "string list"
  dateRange :: string
  sortBy :: string
  sortOrder :: sortDirection

text \<open>The callback of \<open>fileData.files.filter\<close>.\<close>

definition passesFilters :: "FilterState \<Rightarrow> JumpFileData \<Rightarrow> bool" where
  "passesFilters filters file =
     (if length (selectedSubtasks filters) > 0
         \<and> ''DATACO-'' @ datacoNumber file \<notin> set (selectedSubtasks filters) then False
      else if length (selectedProjects filters) > 0
         \<and> project file \<notin> set (selectedProjects filters) then False
      else if length (selectedVehicles filters) > 0
         \<and> vehicle file \<notin> set (selectedVehicles filters) then False
      else if length (selectedEventTypes filters) > 0
         \<and> \<not> list_ex (\<lambda>ev. ev \<in> set (selectedEventTypes filters)) (uniqueEvents file) then False
      else if length (selectedCameraTypes filters) > 0
         \<and> \<not> list_ex (\<lambda>cam. cam \<in> set (selectedCameraTypes filters)) (uniqueCameras file) then False
      else True)"

text \<open>The comparator of \<open>filtered.sort\<close>.\<close>

definition compareFiles ::
  "(string \<Rightarrow> string \<Rightarrow> int) \<Rightarrow> FilterState \<Rightarrow> JumpFileData \<Rightarrow> JumpFileData \<Rightarrow> int" where
  "compareFiles localeCompare filters a b =
     (let comparison =
        (if sortBy filters = ''fileName'' then localeCompare (fileName a) (fileName b)
         else if sortBy filters = ''date'' then localeCompare (date a) (date b)
         else if sortBy filters = ''project'' then localeCompare (project a) (project b)
         else if sortBy filters = ''vehicle'' then localeCompare (vehicle a) (vehicle b)
         else if sortBy filters = ''eventCount'' then int (eventCount a) - int (eventCount b)
         else localeCompare (fileName a) (fileName b))
      in if sortOrder filters = Asc then comparison else - comparison)"

text \<open>
  Arrays are objects with identity: the store maps the address of an array to its
  elements, and \<open>nextFree\<close> is the first address not yet allocated.
\<close>

record store =
  cells :: "nat \<Rightarrow> JumpFileData list"
  nextFree :: nat

text \<open>\<open>xs.filter(p)\<close> builds a new array and leaves \<open>xs\<close> alone.\<close>

definition arrayFilter :: "(JumpFileData \<Rightarrow> bool) \<Rightarrow> nat \<Rightarrow> store \<Rightarrow> nat \<times> store" where
  "arrayFilter p a h =
     (nextFree h, \<lparr> cells = (cells h)(nextFree h := filter p (cells h a)),
                    nextFree = Suc (nextFree h) \<rparr>)"

text \<open>\<open>xs.sort(cmp)\<close> sorts the array \<open>xs\<close> in place.\<close>

definition arraySort ::
  "(JumpFileData \<Rightarrow> JumpFileData \<Rightarrow> int) \<Rightarrow> nat \<Rightarrow> store \<Rightarrow> store" where
  "arraySort cmp a h = h\<lparr> cells := (cells h)(a := sortWith cmp (cells h a)) \<rparr>"

text \<open>The array literal \<open>[]\<close>.\<close>

definition arrayEmpty :: "store \<Rightarrow> nat \<times> store" where
  "arrayEmpty h =
     (nextFree h, \<lparr> cells = (cells h)(nextFree h := []), nextFree = Suc (nextFree h) \<rparr>)"

text \<open>
  \<open>filteredFiles\<close>: \<open>fileData\<close> is \<open>None\<close> for \<open>null\<close> and otherwise the address of
  the array \<open>fileData.files\<close>. The result is the address of the returned array and the
  store after the call.
\<close>

definition filteredFiles ::
  "(string \<Rightarrow> string \<Rightarrow> int) \<Rightarrow> nat option \<Rightarrow> FilterState \<Rightarrow> store \<Rightarrow> nat \<times> store" where
  "filteredFiles localeCompare fileData filters h =
     (case fileData of
        None \<Rightarrow> arrayEmpty h
      | Some filesAddr \<Rightarrow>
          (let (filtered, h1) = arrayFilter (passesFilters filters) filesAddr h;
               h2 = arraySort (compareFiles localeCompare filters) filtered h1
           in (filtered, h2)))"

section \<open>The grammars, in the words of the specification\<close>

text \<open>A non-empty run of digits.\<close>

definition digits :: "string \<Rightarrow> bool" where
  "digits s = (s \<noteq> [] \<and> list_all isDigit s)"

text \<open>
  The artifact grammar
  \<open><project>_<vehicle>_<DDMMYY>_<HHMMSS>_<digits>_<DDMMYY>_DATACO-<digits>.jump\<close>:
  the name built from seven tokens, and the conditions on the tokens (project and vehicle
  are non-empty and have no underscore, the dates and the time are six digits).
\<close>

definition artifactName ::
  "string \<Rightarrow> string \<Rightarrow> string \<Rightarrow> string \<Rightarrow> string \<Rightarrow> string \<Rightarrow> string \<Rightarrow> string" where
  "artifactName p v d t sw cd n =
     p @ ''_'' @ v @ ''_'' @ d @ ''_'' @ t @ ''_'' @ sw @ ''_'' @ cd @ ''_DATACO-'' @ n @ ''.jump''"

definition artifactTokens ::
  "string \<Rightarrow> string \<Rightarrow> string \<Rightarrow> string \<Rightarrow> string \<Rightarrow> string \<Rightarrow> string \<Rightarrow> bool" where
  "artifactTokens p v d t sw cd n =
     (p \<noteq> [] \<and> CHR ''_'' \<notin> set p \<and> v \<noteq> [] \<and> CHR ''_'' \<notin> set v
      \<and> digits d \<and> length d = 6 \<and> digits t \<and> length t = 6 \<and> digits sw
      \<and> digits cd \<and> length cd = 6 \<and> digits n)"

definition matchesGrammar :: "string \<Rightarrow> bool" where
  "matchesGrammar fName =
     (\<exists>p v d t sw cd n. artifactTokens p v d t sw cd n \<and> fName = artifactName p v d t sw cd n)"

text \<open>
  The track pattern \<open>sessionName_s<digits>_s_<view>_s<digits>_<clip>\<close>: the token
  built from the session name and four parts, and the conditions on the parts.
\<close>

definition trackName :: "string \<Rightarrow> string \<Rightarrow> string \<Rightarrow> string \<Rightarrow> string \<Rightarrow> string" where
  "trackName sName n1 view n2 clip =
     sName @ ''_s'' @ n1 @ ''_s_'' @ view @ ''_s'' @ n2 @ ''_'' @ clip"

definition trackParts :: "string \<Rightarrow> string \<Rightarrow> string \<Rightarrow> string \<Rightarrow> bool" where
  "trackParts n1 view n2 clip =
     (digits n1 \<and> view \<noteq> [] \<and> CHR ''_'' \<notin> set view \<and> digits n2
      \<and> clip \<noteq> [] \<and> CHR ''_'' \<notin> set clip)"

text \<open>The token is exactly of the shape of the track pattern.\<close>

definition trackShape :: "string \<Rightarrow> string \<Rightarrow> bool" where
  "trackShape sName tok =
     (\<exists>n1 view n2 clip. trackParts n1 view n2 clip \<and> tok = trackName sName n1 view n2 clip)"

text \<open>The token ends with text of the shape of the track pattern.\<close>

definition trackShapeSuffix :: "string \<Rightarrow> string \<Rightarrow> bool" where
  "trackShapeSuffix sName tok = (\<exists>pre suf. tok = pre @ suf \<and> trackShape sName suf)"

section \<open>The tree without the files that cannot be read\<close>

text \<open>
  The directory tree with every file removed whose \<open>statSync\<close> or
  \<open>readFileSync\<close> throws, at any depth.
\<close>

fun withoutFailed :: "dirState \<Rightarrow> dirState"
and withoutFailedEntries :: "fsEntry list \<Rightarrow> fsEntry list" where
  "withoutFailed Missing = Missing"
| "withoutFailed Unreadable = Unreadable"
| "withoutFailed (Listing entries) = Listing (withoutFailedEntries entries)"
| "withoutFailedEntries [] = []"
| "withoutFailedEntries (DirEntry name st # es) =
     DirEntry name (withoutFailed st) # withoutFailedEntries es"
| "withoutFailedEntries (FileEntry name stats content # es) =
     (if stats = None \<or> content = None then withoutFailedEntries es
      else FileEntry name stats content # withoutFailedEntries es)"
| "withoutFailedEntries (OtherEntry name # es) = OtherEntry name # withoutFailedEntries es"

section \<open>Comparators\<close>

text \<open>
  A consistent comparator, as \<open>Array.prototype.sort\<close> expects: the signs of \<open>cmp a b\<close>
  and \<open>cmp b a\<close> are opposite, and \<open>cmp a b \<le> 0\<close> is transitive.
\<close>

definition consistent :: "('a \<Rightarrow> 'a \<Rightarrow> int) \<Rightarrow> bool" where
  "consistent cmp =
     ((\<forall>a b. (cmp a b < 0) = (cmp b a > 0))
      \<and> (\<forall>a b c. cmp a b \<le> 0 \<and> cmp b c \<le> 0 \<longrightarrow> cmp a c \<le> 0))"

text \<open>
  One collation \<open>localeCompare\<close> may implement, for the examples: the comparison of the
  strings by code units.
\<close>

definition codeUnitCompare :: "string \<Rightarrow> string \<Rightarrow> int" where
  "codeUnitCompare a b = (if a < b then - 1 else if a = b then 0 else 1)"

section \<open>Sample data for the examples\<close>

text \<open>
  The records of a scan of two files, the first with one event and the second with none;
  a store that holds them in the array at address 0; and the filter state with no
  constraint and a chosen sort.
\<close>

definition sampleRecords :: "JumpFileData list" where
  "sampleRecords =
     scanDirectory ''/r''
       (Listing [FileEntry ''A_V_010124_120000_5_020124_DATACO-1.jump'' (Some (40, 0))
                   (Some ''A_V_010124_120000_5_s1_s_Front_s60_7 CamA 100 Honk''),
                 FileEntry ''B_V_020124_120000_5_020124_DATACO-2.jump'' (Some (0, 0)) (Some [])])
       [''1'', ''2'']"

definition sampleStore :: store where
  "sampleStore = \<lparr> cells = (\<lambda>_. [])(0 := sampleRecords), nextFree = 1 \<rparr>"

definition unconstrained :: "string \<Rightarrow> sortDirection \<Rightarrow> FilterState" where
  "unconstrained key dir =
     \<lparr> selectedSubtasks = [], selectedEventTypes = [], selectedCameraTypes = [],
       selectedProjects = [], selectedVehicles = [], dateRange = ''all'',
       sortBy = key, sortOrder = dir \<rparr>"

section \<open>What the matcher accepts\<close>

lemma startsWith_append: "startsWith s l = (\<exists>r. s = l @ r)"
proof
  assume "startsWith s l"
  then have "s = l @ drop (length l) s"
    unfolding startsWith_def by (metis append_take_drop_id)
  then show "\<exists>r. s = l @ r" ..
next
  assume "\<exists>r. s = l @ r"
  then show "startsWith s l" unfolding startsWith_def by auto
qed

lemma in_elemSplits_Lit:
  "(cs, r) \<in> set (elemSplits (Lit l) s) \<longleftrightarrow> cs = [] \<and> s = l @ r"
  by (auto simp: startsWith_append)

lemma prefix_all_takeWhile:
  "list_all P (take k s) \<and> k \<le> length s \<longleftrightarrow> k \<le> length (takeWhile P s)"
proof (induction s arbitrary: k)
  case Nil
  then show ?case by simp
next
  case (Cons x xs)
  then show ?case by (cases k) auto
qed

lemma in_elemSplits_Rep1:
  "(cs, r) \<in> set (elemSplits (Rep1 c cap) s) \<longleftrightarrow>
     (\<exists>u. u \<noteq> [] \<and> list_all (inCls c) u \<and> s = u @ r \<and> cs = (if cap then [u] else []))"
proof
  assume "(cs, r) \<in> set (elemSplits (Rep1 c cap) s)"
  then obtain k where k: "1 \<le> k" "k \<le> length (takeWhile (inCls c) s)"
    and cs: "cs = (if cap then [take k s] else [])" and r: "r = drop k s"
    by auto
  from k(2) have "list_all (inCls c) (take k s)" "k \<le> length s"
    using prefix_all_takeWhile [of "inCls c" k s] by auto
  with k(1) cs r show "\<exists>u. u \<noteq> [] \<and> list_all (inCls c) u \<and> s = u @ r \<and> cs = (if cap then [u] else [])"
    by (intro exI [of _ "take k s"]) auto
next
  assume "\<exists>u. u \<noteq> [] \<and> list_all (inCls c) u \<and> s = u @ r \<and> cs = (if cap then [u] else [])"
  then obtain u where u: "u \<noteq> []" "list_all (inCls c) u" "s = u @ r"
    "cs = (if cap then [u] else [])" by blast
  have "length u \<le> length (takeWhile (inCls c) s)"
    using u prefix_all_takeWhile [of "inCls c" "length u" s] by simp
  moreover have "1 \<le> length u" using u(1) by (cases u) auto
  ultimately have "length u \<in> set (rev [1 ..< Suc (length (takeWhile (inCls c) s))])"
    by auto
  then have "(if cap then [take (length u) s] else [], drop (length u) s)
      \<in> set (elemSplits (Rep1 c cap) s)"
    by (simp only: elemSplits.simps set_map) (rule imageI)
  moreover have "(cs, r) = (if cap then [take (length u) s] else [], drop (length u) s)"
    using u by simp
  ultimately show "(cs, r) \<in> set (elemSplits (Rep1 c cap) s)" by (simp only:)
qed

lemma in_elemSplits_RepN:
  "(cs, r) \<in> set (elemSplits (RepN n c cap) s) \<longleftrightarrow>
     (\<exists>u. length u = n \<and> list_all (inCls c) u \<and> s = u @ r \<and> cs = (if cap then [u] else []))"
proof
  assume "(cs, r) \<in> set (elemSplits (RepN n c cap) s)"
  then have "n \<le> length s" "list_all (inCls c) (take n s)"
    "cs = (if cap then [take n s] else [])" "r = drop n s"
    by (auto split: if_splits)
  then show "\<exists>u. length u = n \<and> list_all (inCls c) u \<and> s = u @ r \<and> cs = (if cap then [u] else [])"
    by (intro exI [of _ "take n s"]) auto
next
  assume "\<exists>u. length u = n \<and> list_all (inCls c) u \<and> s = u @ r \<and> cs = (if cap then [u] else [])"
  then show "(cs, r) \<in> set (elemSplits (RepN n c cap) s)" by auto
qed

lemma in_matchAll_Nil: "ds \<in> set (matchAll [] s) \<longleftrightarrow> s = [] \<and> ds = []"
  by auto

lemma in_matchAll_Cons:
  "ds \<in> set (matchAll (e # es) s) \<longleftrightarrow>
     (\<exists>cs r ds'. (cs, r) \<in> set (elemSplits e s) \<and> ds' \<in> set (matchAll es r) \<and> ds = cs @ ds')"
  by (simp only: matchAll.simps) fastforce

lemma in_matchAll_Lit:
  "ds \<in> set (matchAll (Lit l # es) s) \<longleftrightarrow> (\<exists>r. s = l @ r \<and> ds \<in> set (matchAll es r))"
  by (simp only: in_matchAll_Cons in_elemSplits_Lit) auto

lemma in_matchAll_Rep1:
  "ds \<in> set (matchAll (Rep1 c cap # es) s) \<longleftrightarrow>
     (\<exists>u r ds'. u \<noteq> [] \<and> list_all (inCls c) u \<and> s = u @ r \<and> ds' \<in> set (matchAll es r)
        \<and> ds = (if cap then [u] else []) @ ds')"
  by (simp only: in_matchAll_Cons in_elemSplits_Rep1) blast

lemma in_matchAll_RepN:
  "ds \<in> set (matchAll (RepN n c cap # es) s) \<longleftrightarrow>
     (\<exists>u r ds'. length u = n \<and> list_all (inCls c) u \<and> s = u @ r \<and> ds' \<in> set (matchAll es r)
        \<and> ds = (if cap then [u] else []) @ ds')"
  by (simp only: in_matchAll_Cons in_elemSplits_RepN) blast

lemma firstSome_Some: "firstSome f xs = Some y \<Longrightarrow> \<exists>x \<in> set xs. f x = Some y"
  by (induction xs) (auto split: option.splits)

lemma firstSome_None: "firstSome f xs = None \<longleftrightarrow> (\<forall>x \<in> set xs. f x = None)"
  by (induction xs) (auto split: option.splits)

lemma regexExec_firstOf: "regexExec True pat s = firstOf (matchAll pat s)"
  by (simp add: regexExec_def split: option.splits)

lemma firstOf_Some: "firstOf xs = Some y \<Longrightarrow> y \<in> set xs"
  by (cases xs) (auto simp: firstOf_def)

lemma firstOf_None: "firstOf xs = None \<longleftrightarrow> xs = []"
  by (cases xs) (auto simp: firstOf_def)

lemma regexExec_Some:
  "regexExec False pat s = Some ds \<Longrightarrow> \<exists>pre suf. s = pre @ suf \<and> ds \<in> set (matchAll pat suf)"
proof -
  assume "regexExec False pat s = Some ds"
  then obtain i where "firstOf (matchAll pat (drop i s)) = Some ds"
    unfolding regexExec_def by (auto dest!: firstSome_Some)
  then have "ds \<in> set (matchAll pat (drop i s))" by (rule firstOf_Some)
  moreover have "s = take i s @ drop i s" by simp
  ultimately show ?thesis by blast
qed

lemma regexExec_None:
  "regexExec False pat s = None \<longleftrightarrow> (\<forall>pre suf. s = pre @ suf \<longrightarrow> matchAll pat suf = [])"
proof
  assume n: "regexExec False pat s = None"
  show "\<forall>pre suf. s = pre @ suf \<longrightarrow> matchAll pat suf = []"
  proof (intro allI impI)
    fix pre suf assume s: "s = pre @ suf"
    then have "length pre \<in> set [0 ..< Suc (length s)]" by auto
    with n have "firstOf (matchAll pat (drop (length pre) s)) = None"
      unfolding regexExec_def by (simp only: firstSome_None if_False)
    with s show "matchAll pat suf = []" by (simp add: firstOf_None)
  qed
next
  assume a: "\<forall>pre suf. s = pre @ suf \<longrightarrow> matchAll pat suf = []"
  have "\<And>i. matchAll pat (drop i s) = []"
  proof -
    fix i
    have "s = take i s @ drop i s" by simp
    with a show "matchAll pat (drop i s) = []" by blast
  qed
  then show "regexExec False pat s = None"
    unfolding regexExec_def by (simp add: firstSome_None firstOf_None)
qed

lemma map_append_Nil: "map ((@) []) xs = xs"
  by (induction xs) auto

lemma matchAll_Lit: "matchAll (Lit l # es) (l @ r) = matchAll es r"
  by (simp add: startsWith_def map_append_Nil)

lemma matchAll_RepN:
  assumes "length u = n" "list_all (inCls c) u"
  shows "matchAll (RepN n c cap # es) (u @ r)
           = map (\<lambda>ds. (if cap then [u] else []) @ ds) (matchAll es r)"
  using assms by simp

lemma takeWhile_run:
  assumes "list_all P u" "r = [] \<or> \<not> P (hd r)"
  shows "takeWhile P (u @ r) = u"
proof -
  have "takeWhile P r = []" using assms(2) by (cases r) auto
  moreover have "takeWhile P (u @ r) = u @ takeWhile P r"
    using assms(1) by (intro takeWhile_append2) (simp add: list_all_iff)
  ultimately show ?thesis by simp
qed

lemma matchAll_Rep1:
  assumes "u \<noteq> []" "list_all (inCls c) u" "r = [] \<or> \<not> inCls c (hd r)"
  shows "\<exists>others. matchAll (Rep1 c cap # es) (u @ r)
           = map (\<lambda>ds. (if cap then [u] else []) @ ds) (matchAll es r) @ others"
proof -
  obtain m where m: "length u = Suc m" using assms(1) by (cases u) auto
  have tw: "length (takeWhile (inCls c) (u @ r)) = Suc m"
    using takeWhile_run [OF assms(2,3)] m by simp
  have "rev [1 ..< Suc (Suc m)] = Suc m # rev [1 ..< Suc m]" by simp
  then have "elemSplits (Rep1 c cap) (u @ r)
      = (if cap then [take (Suc m) (u @ r)] else [], drop (Suc m) (u @ r))
        # map (\<lambda>k. (if cap then [take k (u @ r)] else [], drop k (u @ r))) (rev [1 ..< Suc m])"
    by (simp only: elemSplits.simps tw list.map)
  moreover have "take (Suc m) (u @ r) = u" "drop (Suc m) (u @ r) = r" using m by simp_all
  ultimately have "elemSplits (Rep1 c cap) (u @ r)
      = (if cap then [u] else [], r)
        # map (\<lambda>k. (if cap then [take k (u @ r)] else [], drop k (u @ r))) (rev [1 ..< Suc m])"
    by simp
  then show ?thesis by (simp only: matchAll.simps list.map concat.simps split) blast
qed

lemma firstOf_map_append: "firstOf xs = Some y \<Longrightarrow> firstOf (map f xs @ others) = Some (f y)"
  by (cases xs) (auto simp: firstOf_def)

lemma firstOf_Lit:
  "firstOf (matchAll es r) = Some ds \<Longrightarrow> firstOf (matchAll (Lit l # es) (l @ r)) = Some ds"
  by (simp only: matchAll_Lit)

lemma firstOf_Lit_end: "firstOf (matchAll [Lit l] l) = Some []"
  using matchAll_Lit [of l "[]" "[]"] by (simp add: firstOf_def)

lemma firstOf_RepN:
  assumes "length u = n" "list_all (inCls c) u" "firstOf (matchAll es r) = Some ds"
  shows "firstOf (matchAll (RepN n c True # es) (u @ r)) = Some (u # ds)"
proof -
  have "matchAll (RepN n c True # es) (u @ r) = map (\<lambda>ds. [u] @ ds) (matchAll es r) @ []"
    by (simp only: matchAll_RepN [OF assms(1,2)] if_True append_Nil2)
  then show ?thesis
    using firstOf_map_append [OF assms(3), of "\<lambda>ds. [u] @ ds" "[]"] by (simp only: append_Cons append_Nil)
qed

lemma firstOf_Rep1:
  assumes "u \<noteq> []" "list_all (inCls c) u" "r = [] \<or> \<not> inCls c (hd r)"
    "firstOf (matchAll es r) = Some ds"
  shows "firstOf (matchAll (Rep1 c True # es) (u @ r)) = Some (u # ds)"
proof -
  obtain others where "matchAll (Rep1 c True # es) (u @ r)
           = map (\<lambda>ds. [u] @ ds) (matchAll es r) @ others"
    using matchAll_Rep1 [OF assms(1-3), of True es] by (simp only: if_True) blast
  then show ?thesis
    using firstOf_map_append [OF assms(4), of "\<lambda>ds. [u] @ ds" others] by (simp only: append_Cons append_Nil)
qed

lemma notUnderscore_all: "CHR ''_'' \<notin> set u \<Longrightarrow> list_all (inCls NotUnderscore) u"
  by (induction u) auto

lemma digit_all: "list_all isDigit u \<Longrightarrow> list_all (inCls Digit) u"
  by (induction u) auto

lemma fileName_match:
  assumes "artifactTokens p v d t sw cd n"
  shows "regexExec True fileNamePattern (artifactName p v d t sw cd n)
           = Some [p, v, d, t, sw, cd, n]"
proof -
  have nd: "\<not> isDigit CHR ''_''" "\<not> isDigit CHR ''.''" by (simp_all add: isDigit_def)
  from assms have tk: "p \<noteq> []" "list_all (inCls NotUnderscore) p"
    "v \<noteq> []" "list_all (inCls NotUnderscore) v"
    "length d = 6" "list_all (inCls Digit) d" "length t = 6" "list_all (inCls Digit) t"
    "sw \<noteq> []" "list_all (inCls Digit) sw" "length cd = 6" "list_all (inCls Digit) cd"
    "n \<noteq> []" "list_all (inCls Digit) n"
    by (simp_all add: artifactTokens_def digits_def notUnderscore_all digit_all)
  show ?thesis
    unfolding regexExec_firstOf fileNamePattern_def artifactName_def
    apply (rule firstOf_Rep1 [OF tk(1,2)], simp)
    apply (rule firstOf_Lit)
    apply (rule firstOf_Rep1 [OF tk(3,4)], simp)
    apply (rule firstOf_Lit)
    apply (rule firstOf_RepN [OF tk(5,6)])
    apply (rule firstOf_Lit)
    apply (rule firstOf_RepN [OF tk(7,8)])
    apply (rule firstOf_Lit)
    apply (rule firstOf_Rep1 [OF tk(9,10)], simp add: nd)
    apply (rule firstOf_Lit)
    apply (rule firstOf_RepN [OF tk(11,12)])
    apply (rule firstOf_Lit)
    apply (rule firstOf_Rep1 [OF tk(13,14)], simp add: nd)
    apply (rule firstOf_Lit_end)
    done
qed

lemma matchAll_Rep1E:
  assumes "ds \<in> set (matchAll (Rep1 c True # es) s)"
  obtains u r ds' where "u \<noteq> []" "list_all (inCls c) u" "s = u @ r"
    "ds' \<in> set (matchAll es r)" "ds = u # ds'"
  using assms unfolding in_matchAll_Rep1 by auto

lemma matchAll_RepNE:
  assumes "ds \<in> set (matchAll (RepN n c True # es) s)"
  obtains u r ds' where "length u = n" "list_all (inCls c) u" "s = u @ r"
    "ds' \<in> set (matchAll es r)" "ds = u # ds'"
  using assms unfolding in_matchAll_RepN by auto

lemma matchAll_LitE:
  assumes "ds \<in> set (matchAll (Lit l # es) s)"
  obtains r where "s = l @ r" "ds \<in> set (matchAll es r)"
  using assms unfolding in_matchAll_Lit by auto

lemma matchAll_NilE:
  assumes "ds \<in> set (matchAll [] s)"
  obtains "s = []" "ds = []"
  using assms by (auto split: if_splits)

lemma notUnderscore_all_iff: "list_all (inCls NotUnderscore) u \<longleftrightarrow> CHR ''_'' \<notin> set u"
  by (induction u) auto

lemma digit_all_iff: "list_all (inCls Digit) u \<longleftrightarrow> list_all isDigit u"
  by (induction u) auto

lemma length6_nonempty: "length (u :: string) = 6 \<Longrightarrow> u \<noteq> []"
  by (cases u) simp_all

lemma artifactTokensI:
  assumes "p \<noteq> []" "list_all (inCls NotUnderscore) p"
    "v \<noteq> []" "list_all (inCls NotUnderscore) v"
    "length d = 6" "list_all (inCls Digit) d" "length t = 6" "list_all (inCls Digit) t"
    "sw \<noteq> []" "list_all (inCls Digit) sw" "length cd = 6" "list_all (inCls Digit) cd"
    "n \<noteq> []" "list_all (inCls Digit) n"
  shows "artifactTokens p v d t sw cd n"
proof -
  have "d \<noteq> []" "t \<noteq> []" "cd \<noteq> []"
    using assms(5,7,11) by (simp_all add: length6_nonempty)
  then show ?thesis
    unfolding artifactTokens_def digits_def
    using assms by (simp only: notUnderscore_all_iff digit_all_iff not_False_eq_True simp_thms)
qed

lemma fileName_sound:
  assumes "regexExec True fileNamePattern fName = Some ds"
  shows "\<exists>p v d t sw cd n. artifactTokens p v d t sw cd n \<and> fName = artifactName p v d t sw cd n
     \<and> ds = [p, v, d, t, sw, cd, n]"
proof -
  from assms have "ds \<in> set (matchAll fileNamePattern fName)"
    by (simp add: regexExec_firstOf firstOf_Some)
  then show ?thesis
    unfolding fileNamePattern_def
    apply (elim matchAll_Rep1E matchAll_LitE matchAll_RepNE matchAll_NilE)
    apply hypsubst
    apply (intro exI conjI)
    prefer 3 apply (rule refl)
    prefer 2 apply (simp only: artifactName_def append_Nil2)
    apply (rule artifactTokensI; assumption)
    done
qed

section \<open>parseFileName on names of the grammar and on other names\<close>

lemma length6E:
  assumes "length (u :: string) = 6"
  obtains a b c d e f where "u = [a, b, c, d, e, f]"
  using assms by (auto simp: eval_nat_numeral length_Suc_conv)

lemma formatDate_six:
  "length d = 6 \<Longrightarrow>
     formatDate d = [d ! 0, d ! 1, CHR ''/'', d ! 2, d ! 3, CHR ''/'', CHR ''2'', CHR ''0'', d ! 4, d ! 5]"
  by (erule length6E) (simp add: formatDate_def)

lemma formatTime_six:
  "length t = 6 \<Longrightarrow>
     formatTime t = [t ! 0, t ! 1, CHR '':'', t ! 2, t ! 3, CHR '':'', t ! 4, t ! 5]"
  by (erule length6E) (simp add: formatTime_def)

lemma parseFileName_artifactName:
  assumes "artifactTokens p v d t sw cd n"
  shows "parseFileName (artifactName p v d t sw cd n) =
     Some \<lparr> project = p, vehicle = v, date = formatDate d, time = formatTime t,
            swVersion = sw, createDate = formatDate cd, datacoNumber = n,
            sessionName = p @ ''_'' @ v @ ''_'' @ d @ ''_'' @ t @ ''_'' @ sw \<rparr>"
  unfolding parseFileName_def by (simp only: fileName_match [OF assms] option.case list.case)

lemma parseFileName_Some:
  assumes "parseFileName fName = Some m"
  shows "\<exists>p v d t sw cd n. artifactTokens p v d t sw cd n \<and> fName = artifactName p v d t sw cd n
     \<and> datacoNumber m = n"
proof (cases "regexExec True fileNamePattern fName")
  case None
  with assms show ?thesis by (simp add: parseFileName_def)
next
  case (Some ds)
  from fileName_sound [OF Some] obtain p v d t sw cd n where
    tk: "artifactTokens p v d t sw cd n" and fn: "fName = artifactName p v d t sw cd n"
    and ds: "ds = [p, v, d, t, sw, cd, n]" by blast
  from assms Some ds have "datacoNumber m = n" by (auto simp: parseFileName_def)
  with tk fn show ?thesis by blast
qed

lemma matchesGrammar_iff: "matchesGrammar fName \<longleftrightarrow> parseFileName fName \<noteq> None"
proof
  assume "matchesGrammar fName"
  then show "parseFileName fName \<noteq> None"
    unfolding matchesGrammar_def using parseFileName_artifactName by auto
next
  assume "parseFileName fName \<noteq> None"
  then obtain m where "parseFileName fName = Some m" by auto
  from parseFileName_Some [OF this] show "matchesGrammar fName"
    unfolding matchesGrammar_def by blast
qed

lemma scanEntries_append:
  "scanEntries dirPath (xs @ ys) subs = scanEntries dirPath xs subs @ scanEntries dirPath ys subs"
  by (induction xs) simp_all

text \<open>
  Claim C3. For every file name of the artifact grammar the parser returns metadata whose
  \<open>sessionName\<close> is the five raw tokens project, vehicle, date, time and software
  version joined by underscores, whose \<open>date\<close> and \<open>createDate\<close> are the
  reformatted \<open>DD/MM/20YY\<close> strings and whose \<open>time\<close> is \<open>HH:MM:SS\<close>.
\<close>

theorem parseFileName_matching:
  assumes "artifactTokens p v d t sw cd n"
  shows "parseFileName (artifactName p v d t sw cd n) =
     Some \<lparr> project = p, vehicle = v,
            date = [d ! 0, d ! 1, CHR ''/'', d ! 2, d ! 3, CHR ''/'', CHR ''2'', CHR ''0'', d ! 4, d ! 5],
            time = [t ! 0, t ! 1, CHR '':'', t ! 2, t ! 3, CHR '':'', t ! 4, t ! 5],
            swVersion = sw,
            createDate = [cd ! 0, cd ! 1, CHR ''/'', cd ! 2, cd ! 3, CHR ''/'', CHR ''2'', CHR ''0'',
                          cd ! 4, cd ! 5],
            datacoNumber = n,
            sessionName = p @ ''_'' @ v @ ''_'' @ d @ ''_'' @ t @ ''_'' @ sw \<rparr>"
proof -
  from assms have len: "length d = 6" "length t = 6" "length cd = 6"
    by (simp_all add: artifactTokens_def)
  show ?thesis
    by (simp only: parseFileName_artifactName [OF assms] formatDate_six [OF len(1)]
        formatTime_six [OF len(2)] formatDate_six [OF len(3)])
qed

theorem parseFileName_matching_witness:
  "artifactTokens ''PRJ'' ''VEH'' ''010124'' ''120000'' ''5'' ''020124'' ''42''
   \<and> parseFileName ''PRJ_VEH_010124_120000_5_020124_DATACO-42.jump'' =
     Some \<lparr> project = ''PRJ'', vehicle = ''VEH'', date = ''01/01/2024'', time = ''12:00:00'',
            swVersion = ''5'', createDate = ''02/01/2024'', datacoNumber = ''42'',
            sessionName = ''PRJ_VEH_010124_120000_5'' \<rparr>"
proof -
  have h: "artifactTokens ''PRJ'' ''VEH'' ''010124'' ''120000'' ''5'' ''020124'' ''42''"
    by code_simp
  show ?thesis
    using h parseFileName_matching [OF h] by (simp add: artifactName_def)
qed

text \<open>
  Claim C5. For every file name that is not of the artifact grammar the parser returns
  \<open>None\<close> (the model is a total function: nothing is raised), and the scanner leaves
  such a file out: the scan of a directory gives what it gives without the file.
\<close>

theorem parseFileName_nonmatching:
  assumes "\<not> matchesGrammar fName"
  shows "parseFileName fName = None
     \<and> scanDirectory dirPath (Listing (xs @ FileEntry fName stats content # ys)) subs
        = scanDirectory dirPath (Listing (xs @ ys)) subs"
proof -
  from assms have "parseFileName fName = None" by (simp add: matchesGrammar_iff)
  then show ?thesis by (simp add: scanEntries_append)
qed

theorem parseFileName_nonmatching_witness:
  "\<not> matchesGrammar ''PRJ_VEH_0101_120000_5_020124_DATACO-42.jump''
   \<and> parseFileName ''PRJ_VEH_0101_120000_5_020124_DATACO-42.jump'' = None
   \<and> scanDirectory ''/data''
        (Listing [FileEntry ''PRJ_VEH_0101_120000_5_020124_DATACO-42.jump'' (Some (10, 0)) (Some ''x''),
                  FileEntry ''A_B_010124_120000_5_020124_DATACO-42.jump'' (Some (0, 7)) (Some [])])
        [''42'']
     = scanDirectory ''/data''
        (Listing [FileEntry ''A_B_010124_120000_5_020124_DATACO-42.jump'' (Some (0, 7)) (Some [])])
        [''42'']"
proof -
  have "parseFileName ''PRJ_VEH_0101_120000_5_020124_DATACO-42.jump'' = None"
    by code_simp
  then have h: "\<not> matchesGrammar ''PRJ_VEH_0101_120000_5_020124_DATACO-42.jump''"
    by (simp add: matchesGrammar_iff)
  show ?thesis
    using h parseFileName_nonmatching [OF h, of "''/data''" "[]" "Some (10, 0)" "Some ''x''"
        "[FileEntry ''A_B_010124_120000_5_020124_DATACO-42.jump'' (Some (0, 7)) (Some [])]" "[''42'']"]
    by (simp only: append_Nil simp_thms)
qed

section \<open>The track pattern and the lines that emit an event\<close>

lemma literalOf_escapeRegExp: "literalOf (escapeRegExp s) = s"
proof (induction s)
  case Nil
  then show ?case by simp
next
  case (Cons c cs)
  show ?case
  proof (cases "c \<in> set syntaxChars")
    case True
    with Cons show ?thesis by simp
  next
    case False
    then have "c \<noteq> CHR 0x5C" by (auto simp: syntaxChars_def)
    with False Cons show ?thesis by (cases "escapeRegExp cs") simp_all
  qed
qed

lemma trackPattern_literal:
  "trackPattern sName =
     [Lit sName, Lit ''_s'', Rep1 Digit False, Lit ''_s_'', Rep1 NotUnderscore True,
      Lit ''_s'', Rep1 Digit False, Lit ''_'', Rep1 NotUnderscore True]"
  by (simp add: trackPattern_def literalOf_escapeRegExp)

lemma matchAll_Rep1_skipE:
  assumes "ds \<in> set (matchAll (Rep1 c False # es) s)"
  obtains u r where "u \<noteq> []" "list_all (inCls c) u" "s = u @ r" "ds \<in> set (matchAll es r)"
  using assms unfolding in_matchAll_Rep1 by auto

lemma matchAll_LitI:
  "ds \<in> set (matchAll es r) \<Longrightarrow> ds \<in> set (matchAll (Lit l # es) (l @ r))"
  unfolding in_matchAll_Lit by blast

lemma matchAll_Rep1I:
  "u \<noteq> [] \<Longrightarrow> list_all (inCls c) u \<Longrightarrow> ds \<in> set (matchAll es r)
     \<Longrightarrow> u # ds \<in> set (matchAll (Rep1 c True # es) (u @ r))"
  unfolding in_matchAll_Rep1 by auto

lemma matchAll_Rep1_skipI:
  "u \<noteq> [] \<Longrightarrow> list_all (inCls c) u \<Longrightarrow> ds \<in> set (matchAll es r)
     \<Longrightarrow> ds \<in> set (matchAll (Rep1 c False # es) (u @ r))"
  unfolding in_matchAll_Rep1 by auto

lemma matchAll_Rep1_endI:
  "u \<noteq> [] \<Longrightarrow> list_all (inCls c) u \<Longrightarrow> [u] \<in> set (matchAll [Rep1 c True] u)"
proof -
  assume u: "u \<noteq> []" "list_all (inCls c) u"
  have "[] \<in> set (matchAll [] [])" by simp
  from matchAll_Rep1I [OF u this] show ?thesis by (simp only: append_Nil2)
qed

lemma trackPartsI:
  assumes "n1 \<noteq> []" "list_all (inCls Digit) n1" "view \<noteq> []" "list_all (inCls NotUnderscore) view"
    "n2 \<noteq> []" "list_all (inCls Digit) n2" "clip \<noteq> []" "list_all (inCls NotUnderscore) clip"
  shows "trackParts n1 view n2 clip"
  unfolding trackParts_def digits_def
  using assms by (simp only: notUnderscore_all_iff digit_all_iff not_False_eq_True simp_thms)

lemma trackPartsD:
  assumes "trackParts n1 view n2 clip"
  shows "n1 \<noteq> []" "list_all (inCls Digit) n1" "view \<noteq> []" "list_all (inCls NotUnderscore) view"
    "n2 \<noteq> []" "list_all (inCls Digit) n2" "clip \<noteq> []" "list_all (inCls NotUnderscore) clip"
  using assms unfolding trackParts_def digits_def
  by (simp_all only: notUnderscore_all_iff digit_all_iff not_False_eq_True simp_thms)

lemma track_sound:
  assumes "ds \<in> set (matchAll (trackPattern sName) s)"
  shows "\<exists>n1 view n2 clip. trackParts n1 view n2 clip \<and> s = trackName sName n1 view n2 clip
     \<and> ds = [view, clip]"
  using assms unfolding trackPattern_literal
  apply (elim matchAll_Rep1E matchAll_Rep1_skipE matchAll_LitE matchAll_NilE)
  apply hypsubst
  apply (intro exI conjI)
    prefer 3 apply (rule refl)
   prefer 2 apply (simp only: trackName_def append_Nil2)
  apply (rule trackPartsI; assumption)
  done

lemma track_complete:
  assumes "trackParts n1 view n2 clip"
  shows "[view, clip] \<in> set (matchAll (trackPattern sName) (trackName sName n1 view n2 clip))"
  unfolding trackPattern_literal trackName_def
  using trackPartsD [OF assms]
  by (intro matchAll_LitI matchAll_Rep1I matchAll_Rep1_skipI matchAll_Rep1_endI)

lemma trackPattern_Some:
  assumes "regexExec False (trackPattern sName) tok = Some ds"
  shows "trackShapeSuffix sName tok \<and> (\<exists>view clip. ds = [view, clip] \<and> clip \<noteq> [])"
proof -
  from regexExec_Some [OF assms] obtain pre suf where
    tok: "tok = pre @ suf" and ds: "ds \<in> set (matchAll (trackPattern sName) suf)" by blast
  from track_sound [OF ds] obtain n1 view n2 clip where
    *: "trackParts n1 view n2 clip" "suf = trackName sName n1 view n2 clip" "ds = [view, clip]"
    by blast
  from * tok have "trackShapeSuffix sName tok"
    unfolding trackShapeSuffix_def trackShape_def by blast
  moreover from * have "clip \<noteq> []" by (simp add: trackParts_def)
  ultimately show ?thesis using *(3) by blast
qed

lemma trackPattern_None:
  assumes "regexExec False (trackPattern sName) tok = None"
  shows "\<not> trackShapeSuffix sName tok"
proof
  assume "trackShapeSuffix sName tok"
  then obtain pre n1 view n2 clip where
    tok: "tok = pre @ trackName sName n1 view n2 clip" and tp: "trackParts n1 view n2 clip"
    unfolding trackShapeSuffix_def trackShape_def by blast
  from assms tok have "matchAll (trackPattern sName) (trackName sName n1 view n2 clip) = []"
    by (simp only: regexExec_None)
  with track_complete [OF tp, of sName] show False by simp
qed

lemma trackShapeSuffix_iff:
  "trackShapeSuffix sName tok \<longleftrightarrow> regexExec False (trackPattern sName) tok \<noteq> None"
  using trackPattern_Some trackPattern_None by (cases "regexExec False (trackPattern sName) tok") auto

lemma case_list4_Some:
  assumes "(case xs of a # b # c # d # r \<Rightarrow> f a b c d r | _ \<Rightarrow> None) = Some y"
  obtains a b c d r where "xs = a # b # c # d # r" "f a b c d r = Some y"
  using assms by (auto split: list.splits)

lemma parseLine_Some:
  assumes "parseLine sName line = Some ev"
  shows "\<exists>tok cam frame e rest view clip.
     trim line \<noteq> [] \<and> \<not> startsWith (trim line) ''#''
     \<and> splitWs (trim line) = tok # cam # frame # e # rest
     \<and> regexExec False (trackPattern sName) tok = Some [view, clip]
     \<and> ev = \<lparr> JumpFileEvent.sessionName = sName, viewName = view,
              clipNumber = padStart 4 ''0'' clip, camera = cam, frameNumber = frame,
              eventName = joinWith '' '' (e # rest), fullLine = trim line \<rparr>"
proof -
  have ne: "\<not> (trim line = [] \<or> startsWith (trim line) ''#'')"
  proof
    assume "trim line = [] \<or> startsWith (trim line) ''#''"
    then have "parseLine sName line = None" unfolding parseLine_def Let_def by (simp only: if_True)
    with assms show False by simp
  qed
  from assms ne have "(case splitWs (trim line) of
              trackfile # cam # frame # e # eventParts \<Rightarrow>
                (case regexExec False (trackPattern sName) trackfile of
                   Some [view, clip] \<Rightarrow>
                     Some \<lparr> JumpFileEvent.sessionName = sName, viewName = view,
                            clipNumber = padStart 4 ''0'' clip, camera = cam,
                            frameNumber = frame,
                            eventName = joinWith '' '' (e # eventParts),
                            fullLine = trim line \<rparr>
                 | _ \<Rightarrow> None)
            | _ \<Rightarrow> None) = Some ev"
    unfolding parseLine_def Let_def by (simp only: if_False)
  then obtain tok cam frame e rest where
    sp: "splitWs (trim line) = tok # cam # frame # e # rest" and
    r: "(case regexExec False (trackPattern sName) tok of
                   Some [view, clip] \<Rightarrow>
                     Some \<lparr> JumpFileEvent.sessionName = sName, viewName = view,
                            clipNumber = padStart 4 ''0'' clip, camera = cam,
                            frameNumber = frame,
                            eventName = joinWith '' '' (e # rest),
                            fullLine = trim line \<rparr>
                 | _ \<Rightarrow> None) = Some ev"
    by (rule case_list4_Some)
  from r obtain ds where ex: "regexExec False (trackPattern sName) tok = Some ds"
    by (cases "regexExec False (trackPattern sName) tok") simp_all
  from trackPattern_Some [OF ex] obtain view clip where ds: "ds = [view, clip]" by blast
  from r have "ev = \<lparr> JumpFileEvent.sessionName = sName, viewName = view,
              clipNumber = padStart 4 ''0'' clip, camera = cam, frameNumber = frame,
              eventName = joinWith '' '' (e # rest), fullLine = trim line \<rparr>"
    by (simp only: ex ds option.case list.case) simp
  with ne sp ex ds show ?thesis by blast
qed

lemma parseLine_emits:
  assumes "trim line \<noteq> []" "\<not> startsWith (trim line) ''#''"
    "splitWs (trim line) = tok # cam # frame # e # rest" "trackShapeSuffix sName tok"
  shows "parseLine sName line \<noteq> None"
proof -
  from assms(4) obtain ds where ex: "regexExec False (trackPattern sName) tok = Some ds"
    by (auto simp: trackShapeSuffix_iff)
  from trackPattern_Some [OF ex] obtain view clip where "ds = [view, clip]" by blast
  with assms(1-3) ex show ?thesis
    unfolding parseLine_def Let_def by (simp only: if_False simp_thms option.case list.case) simp
qed

lemma parseLines_length:
  "length (parseLines sName ls) = length (filter (\<lambda>l. parseLine sName l \<noteq> None) ls)"
  by (induction ls) (auto split: option.splits)

section \<open>Event lines\<close>



text \<open>
  Claim C2, as amended. The pattern has \<open>$\<close> and no \<open>^\<close>: a line emits an
  event exactly when, trimmed, it is not empty, does not start with \<open>#\<close>, splits into
  at least four tokens, and its leading token ends with text of the shape
  \<open>sessionName_s<digits>_s_<view>_s<digits>_<clip>\<close>; characters before the session
  name are accepted. Every other line is dropped without an error: the events of a body are
  as many as its emitting lines.
\<close>

theorem parseLine_emits_iff:
  "(parseLine sName line \<noteq> None \<longleftrightarrow>
     trim line \<noteq> [] \<and> \<not> startsWith (trim line) ''#''
     \<and> (\<exists>tok cam frame e rest.
           splitWs (trim line) = tok # cam # frame # e # rest \<and> trackShapeSuffix sName tok))
   \<and> length (parseJumpFileContent content sName)
       = length (filter (\<lambda>l. parseLine sName l \<noteq> None) (splitOn CHR 0x0A content))"
proof (rule conjI)
  show "parseLine sName line \<noteq> None \<longleftrightarrow>
     trim line \<noteq> [] \<and> \<not> startsWith (trim line) ''#''
     \<and> (\<exists>tok cam frame e rest.
           splitWs (trim line) = tok # cam # frame # e # rest \<and> trackShapeSuffix sName tok)"
  proof (rule iffI)
    assume "parseLine sName line \<noteq> None"
    then obtain ev where "parseLine sName line = Some ev" by auto
    from parseLine_Some [OF this] obtain tok cam frame e rest view clip where
      *: "trim line \<noteq> []" "\<not> startsWith (trim line) ''#''"
         "splitWs (trim line) = tok # cam # frame # e # rest"
         "regexExec False (trackPattern sName) tok = Some [view, clip]"
      by blast
    from *(4) have "trackShapeSuffix sName tok" by (simp add: trackShapeSuffix_iff)
    with *(1-3) show "trim line \<noteq> [] \<and> \<not> startsWith (trim line) ''#''
       \<and> (\<exists>tok cam frame e rest.
             splitWs (trim line) = tok # cam # frame # e # rest \<and> trackShapeSuffix sName tok)"
      by blast
  next
    assume "trim line \<noteq> [] \<and> \<not> startsWith (trim line) ''#''
       \<and> (\<exists>tok cam frame e rest.
             splitWs (trim line) = tok # cam # frame # e # rest \<and> trackShapeSuffix sName tok)"
    then show "parseLine sName line \<noteq> None" using parseLine_emits by blast
  qed
next
  show "length (parseJumpFileContent content sName)
       = length (filter (\<lambda>l. parseLine sName l \<noteq> None) (splitOn CHR 0x0A content))"
    by (simp add: parseJumpFileContent_def parseLines_length)
qed

theorem parseLine_emits_iff_witness:
  "parseLine ''PRJ_VEH_010124_120000_5''
      ''zzPRJ_VEH_010124_120000_5_s1_s_Front_s60_7 CamA 100 Honk'' \<noteq> None
   \<and> trackShapeSuffix ''PRJ_VEH_010124_120000_5'' ''zzPRJ_VEH_010124_120000_5_s1_s_Front_s60_7''
   \<and> length (parseJumpFileContent
        (''# comment'' @ [CHR 0x0A] @ ''zzPRJ_VEH_010124_120000_5_s1_s_Front_s60_7 CamA 100 Honk''
          @ [CHR 0x0A] @ ''PRJ_VEH_010124_120000_5_s1_s_Front_s60 CamA 100 Honk'')
        ''PRJ_VEH_010124_120000_5'') = 1"
proof -
  let ?sn = "''PRJ_VEH_010124_120000_5''"
  let ?line = "''zzPRJ_VEH_010124_120000_5_s1_s_Front_s60_7 CamA 100 Honk''"
  let ?content = "''# comment'' @ [CHR 0x0A] @ ''zzPRJ_VEH_010124_120000_5_s1_s_Front_s60_7 CamA 100 Honk''
          @ [CHR 0x0A] @ ''PRJ_VEH_010124_120000_5_s1_s_Front_s60 CamA 100 Honk''"
  have emits: "parseLine ?sn ?line \<noteq> None" by code_simp
  have toks: "splitWs (trim ?line)
      = [''zzPRJ_VEH_010124_120000_5_s1_s_Front_s60_7'', ''CamA'', ''100'', ''Honk'']"
    by code_simp
  have cnt: "length (filter (\<lambda>l. parseLine ?sn l \<noteq> None) (splitOn CHR 0x0A ?content)) = 1"
    by code_simp
  from emits toks parseLine_emits_iff [of ?sn ?line ?content]
  have "trackShapeSuffix ?sn ''zzPRJ_VEH_010124_120000_5_s1_s_Front_s60_7''"
    by (simp only: list.inject simp_thms) blast
  with emits cnt parseLine_emits_iff [of ?sn ?line ?content] show ?thesis by (simp only: simp_thms)
qed

text \<open>
  Counterexample to C2 as stated: a leading token that has the shape only as a proper
  suffix, after two more characters, emits an event.
\<close>

theorem parseLine_whole_token_counterexample:
  "parseLine ''PRJ_VEH_010124_120000_5''
      ''zzPRJ_VEH_010124_120000_5_s1_s_Front_s60_7 CamA 100 Honk'' \<noteq> None
   \<and> splitWs (trim ''zzPRJ_VEH_010124_120000_5_s1_s_Front_s60_7 CamA 100 Honk'')
      = [''zzPRJ_VEH_010124_120000_5_s1_s_Front_s60_7'', ''CamA'', ''100'', ''Honk'']
   \<and> \<not> trackShape ''PRJ_VEH_010124_120000_5'' ''zzPRJ_VEH_010124_120000_5_s1_s_Front_s60_7''"
proof (intro conjI)
  show "parseLine ''PRJ_VEH_010124_120000_5''
      ''zzPRJ_VEH_010124_120000_5_s1_s_Front_s60_7 CamA 100 Honk'' \<noteq> None" by code_simp
  show "splitWs (trim ''zzPRJ_VEH_010124_120000_5_s1_s_Front_s60_7 CamA 100 Honk'')
      = [''zzPRJ_VEH_010124_120000_5_s1_s_Front_s60_7'', ''CamA'', ''100'', ''Honk'']"
    by code_simp
  show "\<not> trackShape ''PRJ_VEH_010124_120000_5'' ''zzPRJ_VEH_010124_120000_5_s1_s_Front_s60_7''"
    by (simp add: trackShape_def trackName_def)
qed


section \<open>The example of the specification\<close>


lemma example_metadata:
  "parseFileName ''PRJ_VEH_010124_120000_5_020124_DATACO-42.jump'' =
     Some \<lparr> project = ''PRJ'', vehicle = ''VEH'', date = ''01/01/2024'', time = ''12:00:00'',
            swVersion = ''5'', createDate = ''02/01/2024'', datacoNumber = ''42'',
            sessionName = ''PRJ_VEH_010124_120000_5'' \<rparr>"
  by code_simp

lemma example_body_spec:
  "parseJumpFileContent ''PRJ_VEH_010124_120000_5_020124_s1_s_Front_s60_7 CamA 100 Honk''
     ''PRJ_VEH_010124_120000_5'' = []"
  by code_simp

lemma example_body_code:
  "parseJumpFileContent ''PRJ_VEH_010124_120000_5_s1_s_Front_s60_7 CamA 100 Honk''
     ''PRJ_VEH_010124_120000_5''
   = [\<lparr> JumpFileEvent.sessionName = ''PRJ_VEH_010124_120000_5'', viewName = ''Front'',
         clipNumber = ''0007'', camera = ''CamA'', frameNumber = ''100'', eventName = ''Honk'',
         fullLine = ''PRJ_VEH_010124_120000_5_s1_s_Front_s60_7 CamA 100 Honk'' \<rparr>]"
  by code_simp

lemma example_extension: "endsWith ''PRJ_VEH_010124_120000_5_020124_DATACO-42.jump'' ''.jump''"
  by code_simp

lemma uniq_single: "uniq [x] = [x]"
  by (simp add: uniq_def)

lemma uniq_Nil: "uniq [] = []"
  by (simp add: uniq_def)

text \<open>
  Claim C1, as amended. Scanning a directory that holds exactly the file
  \<open>PRJ_VEH_010124_120000_5_020124_DATACO-42.jump\<close> with accepted tickets \<open>{"42"}\<close>
  gives exactly one record, with project \<open>PRJ\<close>, vehicle \<open>VEH\<close> and ticket
  \<open>42\<close>. With the body line of the specification, whose track token has \<open>_020124\<close>
  between the session name and \<open>_s1\<close>, the record has no event; with the body line
  \<open>PRJ_VEH_010124_120000_5_s1_s_Front_s60_7 CamA 100 Honk\<close> it has one event, with clip
  \<open>0007\<close>, camera \<open>CamA\<close> and event name \<open>Honk\<close>.
\<close>

theorem scan_example:
  "scanDirectory dirPath
     (Listing [FileEntry ''PRJ_VEH_010124_120000_5_020124_DATACO-42.jump'' (Some (sz, mtime))
        (Some ''PRJ_VEH_010124_120000_5_020124_s1_s_Front_s60_7 CamA 100 Honk'')])
     [''42'']
   = [\<lparr> project = ''PRJ'', vehicle = ''VEH'', date = ''01/01/2024'', time = ''12:00:00'',
        swVersion = ''5'', createDate = ''02/01/2024'', datacoNumber = ''42'',
        sessionName = ''PRJ_VEH_010124_120000_5'',
        fileName = ''PRJ_VEH_010124_120000_5_020124_DATACO-42.jump'',
        filePath = dirPath @ ''/PRJ_VEH_010124_120000_5_020124_DATACO-42.jump'',
        fileSize = sz, lastModified = mtime,
        events = [], eventCount = 0, uniqueEvents = [], uniqueCameras = [], uniqueClips = [] \<rparr>]
   \<and> scanDirectory dirPath
     (Listing [FileEntry ''PRJ_VEH_010124_120000_5_020124_DATACO-42.jump'' (Some (sz, mtime))
        (Some ''PRJ_VEH_010124_120000_5_s1_s_Front_s60_7 CamA 100 Honk'')])
     [''42'']
   = [\<lparr> project = ''PRJ'', vehicle = ''VEH'', date = ''01/01/2024'', time = ''12:00:00'',
        swVersion = ''5'', createDate = ''02/01/2024'', datacoNumber = ''42'',
        sessionName = ''PRJ_VEH_010124_120000_5'',
        fileName = ''PRJ_VEH_010124_120000_5_020124_DATACO-42.jump'',
        filePath = dirPath @ ''/PRJ_VEH_010124_120000_5_020124_DATACO-42.jump'',
        fileSize = sz, lastModified = mtime,
        events = [\<lparr> JumpFileEvent.sessionName = ''PRJ_VEH_010124_120000_5'',
                    viewName = ''Front'', clipNumber = ''0007'', camera = ''CamA'',
                    frameNumber = ''100'', eventName = ''Honk'',
                    fullLine = ''PRJ_VEH_010124_120000_5_s1_s_Front_s60_7 CamA 100 Honk'' \<rparr>],
        eventCount = 1, uniqueEvents = [''Honk''], uniqueCameras = [''CamA''],
        uniqueClips = [''0007''] \<rparr>]"
  by (simp add: example_metadata example_extension makeFileData_def pathJoin_def
        example_body_spec example_body_code uniq_single uniq_Nil)

theorem scan_example_witness:
  "map (\<lambda>r. (project r, vehicle r, datacoNumber r, eventCount r, events r))
     (scanDirectory ''/mobileye/DC/Voice_Tagging''
        (Listing [FileEntry ''PRJ_VEH_010124_120000_5_020124_DATACO-42.jump'' (Some (62, 1704110400000))
           (Some ''PRJ_VEH_010124_120000_5_020124_s1_s_Front_s60_7 CamA 100 Honk'')])
        [''42''])
   = [(''PRJ'', ''VEH'', ''42'', 0, [])]"
  using scan_example [of "''/mobileye/DC/Voice_Tagging''" 62 1704110400000]
  by simp

text \<open>
  Counterexample to C1 as stated: on the input of the specification the one record has
  \<open>eventCount = 0\<close> and no event.
\<close>

theorem scan_example_counterexample:
  "map eventCount
     (scanDirectory VOICE_TAGGING_PATH
        (Listing [FileEntry ''PRJ_VEH_010124_120000_5_020124_DATACO-42.jump'' (Some (62, 0))
           (Some ''PRJ_VEH_010124_120000_5_020124_s1_s_Front_s60_7 CamA 100 Honk'')])
        [''42'']) = [0]
   \<and> map events
     (scanDirectory VOICE_TAGGING_PATH
        (Listing [FileEntry ''PRJ_VEH_010124_120000_5_020124_DATACO-42.jump'' (Some (62, 0))
           (Some ''PRJ_VEH_010124_120000_5_020124_s1_s_Front_s60_7 CamA 100 Honk'')])
        [''42'']) = [[]]"
  by code_simp

section \<open>Failures while scanning\<close>

lemma scanEntry_stat_fails: "scanEntry dirPath (FileEntry name None content) subs = []"
  by (simp split: option.split)

lemma scanEntry_read_fails: "scanEntry dirPath (FileEntry name stats None) subs = []"
  by (simp split: option.split prod.split)

lemma scan_withoutFailed:
  "scanDirectory dirPath (withoutFailed st) subs = scanDirectory dirPath st subs"
  "scanEntries dirPath (withoutFailedEntries es) subs = scanEntries dirPath es subs"
proof (induction st and es arbitrary: dirPath and dirPath rule: withoutFailed_withoutFailedEntries.induct)
  case (6 name stats content es)
  have ih: "scanEntries dirPath (withoutFailedEntries es) subs = scanEntries dirPath es subs"
    using "6.IH" by blast
  show ?case
  proof (cases "stats = None \<or> content = None")
    case True
    then have e: "scanEntry dirPath (FileEntry name stats content) subs = []"
      using scanEntry_stat_fails scanEntry_read_fails by blast
    have "withoutFailedEntries (FileEntry name stats content # es) = withoutFailedEntries es"
      using True by simp
    then show ?thesis using e ih by (simp del: scanEntry.simps)
  next
    case False
    then have "withoutFailedEntries (FileEntry name stats content # es)
        = FileEntry name stats content # withoutFailedEntries es"
      by simp
    then show ?thesis using ih by (simp del: scanEntry.simps)
  qed
qed simp_all

text \<open>
  Claim C4. A missing or unreadable directory gives the empty list. A file whose
  \<open>statSync\<close> or \<open>readFileSync\<close> throws is left out and the records of the other
  files are what they are without it, for one such file in a listing and for any number
  of them at any depth.
\<close>

theorem scan_failure_policy:
  "scanDirectory dirPath Missing subs = []
   \<and> scanDirectory dirPath Unreadable subs = []
   \<and> scanDirectory dirPath (Listing (xs @ FileEntry name None content # ys)) subs
       = scanDirectory dirPath (Listing (xs @ ys)) subs
   \<and> scanDirectory dirPath (Listing (xs @ FileEntry name stats None # ys)) subs
       = scanDirectory dirPath (Listing (xs @ ys)) subs
   \<and> scanDirectory dirPath (withoutFailed st) subs = scanDirectory dirPath st subs"
  by (simp add: scanEntries_append scanEntry_stat_fails scanEntry_read_fails scan_withoutFailed
      del: scanEntry.simps)

theorem scan_failure_policy_witness:
  "scanDirectory ''/d'' Missing [''42''] = []
   \<and> scanDirectory ''/d'' Unreadable [''42''] = []
   \<and> scanDirectory ''/d''
        (Listing [DirEntry ''a''
                    (Listing [FileEntry ''P_V_010124_120000_5_020124_DATACO-42.jump'' None (Some ''x''),
                              FileEntry ''Q_V_010124_120000_5_020124_DATACO-42.jump'' (Some (3, 9)) None,
                              FileEntry ''R_V_010124_120000_5_020124_DATACO-42.jump'' (Some (0, 5)) (Some [])]),
                  DirEntry ''b'' Unreadable,
                  FileEntry ''T_V_010124_120000_5_020124_DATACO-42.jump'' (Some (1, 2)) (Some [])])
        [''42'']
     = scanDirectory ''/d''
        (Listing [DirEntry ''a''
                    (Listing [FileEntry ''R_V_010124_120000_5_020124_DATACO-42.jump'' (Some (0, 5)) (Some [])]),
                  DirEntry ''b'' Unreadable,
                  FileEntry ''T_V_010124_120000_5_020124_DATACO-42.jump'' (Some (1, 2)) (Some [])])
        [''42'']
   \<and> map fileName (scanDirectory ''/d''
        (Listing [DirEntry ''a''
                    (Listing [FileEntry ''P_V_010124_120000_5_020124_DATACO-42.jump'' None (Some ''x''),
                              FileEntry ''Q_V_010124_120000_5_020124_DATACO-42.jump'' (Some (3, 9)) None,
                              FileEntry ''R_V_010124_120000_5_020124_DATACO-42.jump'' (Some (0, 5)) (Some [])]),
                  DirEntry ''b'' Unreadable,
                  FileEntry ''T_V_010124_120000_5_020124_DATACO-42.jump'' (Some (1, 2)) (Some [])])
        [''42''])
     = [''R_V_010124_120000_5_020124_DATACO-42.jump'', ''T_V_010124_120000_5_020124_DATACO-42.jump'']"
proof -
  let ?t = "Listing [DirEntry ''a''
                    (Listing [FileEntry ''P_V_010124_120000_5_020124_DATACO-42.jump'' None (Some ''x''),
                              FileEntry ''Q_V_010124_120000_5_020124_DATACO-42.jump'' (Some (3, 9)) None,
                              FileEntry ''R_V_010124_120000_5_020124_DATACO-42.jump'' (Some (0, 5)) (Some [])]),
                  DirEntry ''b'' Unreadable,
                  FileEntry ''T_V_010124_120000_5_020124_DATACO-42.jump'' (Some (1, 2)) (Some [])]"
  have w: "withoutFailed ?t = Listing [DirEntry ''a''
                    (Listing [FileEntry ''R_V_010124_120000_5_020124_DATACO-42.jump'' (Some (0, 5)) (Some [])]),
                  DirEntry ''b'' Unreadable,
                  FileEntry ''T_V_010124_120000_5_020124_DATACO-42.jump'' (Some (1, 2)) (Some [])]"
    by simp
  have names: "map fileName (scanDirectory ''/d'' ?t [''42''])
     = [''R_V_010124_120000_5_020124_DATACO-42.jump'', ''T_V_010124_120000_5_020124_DATACO-42.jump'']"
    by code_simp
  from scan_failure_policy [of "''/d''" "[''42'']" "[]" "''n''" None "[]" None ?t] w names
  show ?thesis by (simp only: simp_thms)
qed

section \<open>Ticket keys\<close>

lemma replaceFirst_first:
  assumes "pat \<noteq> []" "\<forall>i < length pre. \<not> startsWith (drop i (pre @ pat @ post)) pat"
  shows "replaceFirst pat rep (pre @ pat @ post) = pre @ rep @ post"
  using assms(2)
proof (induction pre)
  case Nil
  from assms(1) obtain c cs where "pat @ post = c # cs" by (cases pat) auto
  moreover have "startsWith (pat @ post) pat" by (simp add: startsWith_def)
  ultimately show ?case by (metis append_Nil append_eq_conv_conj replaceFirst.simps(2))
next
  case (Cons x pre)
  from Cons.prems have "\<not> startsWith (x # pre @ pat @ post) pat" by force
  moreover have "\<forall>i < length pre. \<not> startsWith (drop i (pre @ pat @ post)) pat"
  proof (intro allI impI)
    fix i assume "i < length pre"
    then have "Suc i < length (x # pre)" by simp
    with Cons.prems have "\<not> startsWith (drop (Suc i) ((x # pre) @ pat @ post)) pat" by blast
    then show "\<not> startsWith (drop i (pre @ pat @ post)) pat" by simp
  qed
  ultimately show ?case using Cons.IH by simp
qed

lemma replaceFirst_absent:
  assumes "pat \<noteq> []" "\<forall>i \<le> length s. \<not> startsWith (drop i s) pat"
  shows "replaceFirst pat rep s = s"
  using assms(2)
proof (induction s)
  case Nil
  with assms(1) show ?case by simp
next
  case (Cons x s)
  from Cons.prems have "\<not> startsWith (x # s) pat" by force
  moreover have "\<forall>i \<le> length s. \<not> startsWith (drop i s) pat"
  proof (intro allI impI)
    fix i assume "i \<le> length s"
    then have "Suc i \<le> length (x # s)" by simp
    with Cons.prems have "\<not> startsWith (drop (Suc i) (x # s)) pat" by blast
    then show "\<not> startsWith (drop i s) pat" by simp
  qed
  ultimately show ?case using Cons.IH by simp
qed

lemma parseFileName_jump:
  assumes "parseFileName name = Some md"
  shows "endsWith name ''.jump'' \<and> datacoNumber md \<noteq> []"
proof -
  from parseFileName_Some [OF assms] obtain p v d t sw cd n where
    tk: "artifactTokens p v d t sw cd n" and fn: "name = artifactName p v d t sw cd n"
    and n: "datacoNumber md = n" by blast
  have "endsWith (pre @ ''.jump'') ''.jump''" for pre
    by (simp add: endsWith_def)
  from this [of "p @ ''_'' @ v @ ''_'' @ d @ ''_'' @ t @ ''_'' @ sw @ ''_'' @ cd @ ''_DATACO-'' @ n"]
  have "endsWith name ''.jump''" unfolding fn artifactName_def by (simp only: append_assoc)
  moreover from tk n have "datacoNumber md \<noteq> []" by (simp add: artifactTokens_def digits_def)
  ultimately show ?thesis by simp
qed

text \<open>
  Claim C10. Ticket keys are normalized and matched as exact strings. \<open>replace\<close>
  removes the first occurrence of the case-sensitive text \<open>DATACO-\<close> from an entry,
  wherever it stands, and nothing else; an entry without the text is unchanged. The
  subtasks are the comma-separated entries so normalized. A readable file whose name
  parses is included exactly when the ticket digits of its name are equal, as a string, to
  one of them.
\<close>

theorem ticket_key_matching:
  "(s = pre @ ''DATACO-'' @ post \<and> (\<forall>i < length pre. \<not> startsWith (drop i s) ''DATACO-'')
      \<longrightarrow> replaceFirst ''DATACO-'' '''' s = pre @ post)
   \<and> ((\<forall>i \<le> length s. \<not> startsWith (drop i s) ''DATACO-'')
      \<longrightarrow> replaceFirst ''DATACO-'' '''' s = s)
   \<and> normalizeSubtasks param = map (replaceFirst ''DATACO-'' '''') (splitOn CHR '','' param)
   \<and> (parseFileName name = Some md \<longrightarrow>
        scanEntry dirPath (FileEntry name (Some (sz, mtime)) (Some text)) (normalizeSubtasks param)
        = (if datacoNumber md \<in> set (normalizeSubtasks param)
           then [makeFileData name (pathJoin dirPath name) md sz mtime text] else []))"
proof (intro conjI impI)
  assume "s = pre @ ''DATACO-'' @ post \<and> (\<forall>i < length pre. \<not> startsWith (drop i s) ''DATACO-'')"
  then have s: "s = pre @ ''DATACO-'' @ post"
    and h: "\<forall>i < length pre. \<not> startsWith (drop i (pre @ ''DATACO-'' @ post)) ''DATACO-''"
    by blast+
  have ne: "''DATACO-'' \<noteq> []" by simp
  show "replaceFirst ''DATACO-'' '''' s = pre @ post"
    unfolding s using replaceFirst_first [OF ne h, of "''''"] by (simp only: append_Nil)
next
  assume "\<forall>i \<le> length s. \<not> startsWith (drop i s) ''DATACO-''"
  then show "replaceFirst ''DATACO-'' '''' s = s"
    by (intro replaceFirst_absent) simp_all
next
  show "normalizeSubtasks param = map (replaceFirst ''DATACO-'' '''') (splitOn CHR '','' param)"
    by (simp add: normalizeSubtasks_def)
next
  assume md: "parseFileName name = Some md"
  from parseFileName_jump [OF md] md
  show "scanEntry dirPath (FileEntry name (Some (sz, mtime)) (Some text)) (normalizeSubtasks param)
        = (if datacoNumber md \<in> set (normalizeSubtasks param)
           then [makeFileData name (pathJoin dirPath name) md sz mtime text] else [])"
    by simp
qed

lemma startsWith_drop_mem:
  assumes "startsWith (drop i s) (c # p)"
  shows "c \<in> set s"
proof -
  from assms obtain r where "drop i s = (c # p) @ r" by (auto simp: startsWith_append)
  then have "c \<in> set (drop i s)" by simp
  then show ?thesis by (rule in_set_dropD)
qed

theorem ticket_key_matching_witness:
  "replaceFirst ''DATACO-'' [] ''xDATACO-DATACO-42'' = ''xDATACO-42''
   \<and> replaceFirst ''DATACO-'' [] ''dataco-42'' = ''dataco-42''
   \<and> normalizeSubtasks ''DATACO-042,dataco-42,xDATACO-42'' = [''042'', ''dataco-42'', ''x42'']
   \<and> scanEntry ''/d'' (FileEntry ''PRJ_VEH_010124_120000_5_020124_DATACO-42.jump'' (Some (1, 2)) (Some []))
        (normalizeSubtasks ''DATACO-042,dataco-42,xDATACO-42'') = []
   \<and> map fileName
        (scanEntry ''/d'' (FileEntry ''PRJ_VEH_010124_120000_5_020124_DATACO-42.jump'' (Some (1, 2)) (Some []))
           (normalizeSubtasks ''DATACO-7,DATACO-42''))
      = [''PRJ_VEH_010124_120000_5_020124_DATACO-42.jump'']"
proof -
  let ?name = "''PRJ_VEH_010124_120000_5_020124_DATACO-42.jump''"
  let ?md = "\<lparr> project = ''PRJ'', vehicle = ''VEH'', date = ''01/01/2024'', time = ''12:00:00'',
            swVersion = ''5'', createDate = ''02/01/2024'', datacoNumber = ''42'',
            sessionName = ''PRJ_VEH_010124_120000_5'' \<rparr>"
  have first: "''xDATACO-DATACO-42'' = ''x'' @ ''DATACO-'' @ ''DATACO-42''
      \<and> (\<forall>i < length ''x''. \<not> startsWith (drop i ''xDATACO-DATACO-42'') ''DATACO-'')"
    by (simp add: startsWith_def)
  have absent: "\<forall>i \<le> length ''dataco-42''. \<not> startsWith (drop i ''dataco-42'') ''DATACO-''"
    using startsWith_drop_mem [of _ "''dataco-42''" "CHR ''D''" "''ATACO-''"] by auto
  have n1: "normalizeSubtasks ''DATACO-042,dataco-42,xDATACO-42'' = [''042'', ''dataco-42'', ''x42'']"
    by code_simp
  have n2: "normalizeSubtasks ''DATACO-7,DATACO-42'' = [''7'', ''42'']"
    by code_simp
  have r1: "replaceFirst ''DATACO-'' [] ''xDATACO-DATACO-42'' = ''xDATACO-42''"
    using first ticket_key_matching [of "''xDATACO-DATACO-42''" "''x''" "''DATACO-42''"]
    by (simp only: simp_thms append_Cons append_Nil)
  have r2: "replaceFirst ''DATACO-'' [] ''dataco-42'' = ''dataco-42''"
    using absent ticket_key_matching [of "''dataco-42''"] by (simp only: simp_thms)
  have s1: "scanEntry ''/d'' (FileEntry ?name (Some (1, 2)) (Some []))
        (normalizeSubtasks ''DATACO-042,dataco-42,xDATACO-42'') = []"
    using example_metadata
      ticket_key_matching [of _ _ _ "''DATACO-042,dataco-42,xDATACO-42''" ?name ?md "''/d''" 1 2 "[]"]
    by (simp add: n1)
  have s2: "scanEntry ''/d'' (FileEntry ?name (Some (1, 2)) (Some [])) (normalizeSubtasks ''DATACO-7,DATACO-42'')
      = [makeFileData ?name (pathJoin ''/d'' ?name) ?md 1 2 []]"
    using example_metadata
      ticket_key_matching [of _ _ _ "''DATACO-7,DATACO-42''" ?name ?md "''/d''" 1 2 "[]"]
    by (simp add: n2)
  have s3: "map fileName
        (scanEntry ''/d'' (FileEntry ?name (Some (1, 2)) (Some [])) (normalizeSubtasks ''DATACO-7,DATACO-42''))
      = [?name]"
    by (simp only: s2) (simp add: makeFileData_def Let_def)
  from r1 r2 n1 s1 s3 show ?thesis by blast
qed

section \<open>The summary\<close>

lemma sorted_hd_least: "sorted xs \<Longrightarrow> x \<in> set xs \<Longrightarrow> hd xs \<le> x"
  by (cases xs) auto

lemma sorted_last_greatest: "sorted xs \<Longrightarrow> x \<in> set xs \<Longrightarrow> x \<le> last xs"
  by (induction xs) auto

lemma orDefault_Some: "orDefault (Some s) [] = s"
  by (simp add: orDefault_def)

lemma elemAt_first: "xs \<noteq> [] \<Longrightarrow> elemAt xs 0 = Some (hd xs)"
  by (cases xs) (simp_all add: elemAt_def)

lemma elemAt_last: "xs \<noteq> [] \<Longrightarrow> elemAt xs (int (length xs) - 1) = Some (last xs)"
proof -
  assume ne: "xs \<noteq> []"
  then have "nat (int (length xs) - 1) = length xs - 1" by simp
  moreover from ne have "0 \<le> int (length xs) - 1" by (cases xs) simp_all
  ultimately show ?thesis using ne by (simp add: elemAt_def last_conv_nth)
qed

lemma elemAt_empty: "elemAt [] i = None"
  by (simp add: elemAt_def)

lemma first_last_or_empty:
  "\<lparr> earliest = orDefault (elemAt sd 0) [],
     latest = orDefault (elemAt sd (int (length sd) - 1)) [] \<rparr>
   = (if sd = [] then \<lparr> earliest = [], latest = [] \<rparr>
      else \<lparr> earliest = hd sd, latest = last sd \<rparr>)"
  by (cases "sd = []") (simp_all add: elemAt_empty elemAt_first elemAt_last orDefault_def)

lemma dateRange_sorted:
  "Summary.dateRange (makeSummary fs) =
     (if sort (filter (\<lambda>d. d \<noteq> []) (map date fs)) = [] then \<lparr> earliest = [], latest = [] \<rparr>
      else \<lparr> earliest = hd (sort (filter (\<lambda>d. d \<noteq> []) (map date fs))),
             latest = last (sort (filter (\<lambda>d. d \<noteq> []) (map date fs))) \<rparr>)"
  by (simp only: makeSummary_def Let_def Summary.select_convs first_last_or_empty)

lemma makeSummary_Nil:
  "makeSummary [] = \<lparr> totalEvents = 0, uniqueEventTypes = [], uniqueCameraTypes = [],
      uniqueProjects = [], uniqueVehicles = [],
      dateRange = \<lparr> earliest = [], latest = [] \<rparr> \<rparr>"
  by (simp add: makeSummary_def uniq_def elemAt_def orDefault_def)

lemma mset_insertBy: "mset (insertBy cmp x ys) = add_mset x (mset ys)"
  by (induction ys) simp_all

lemma mset_sortWith: "mset (sortWith cmp xs) = mset xs"
  unfolding sortWith_def by (induction xs) (simp_all add: mset_insertBy)

lemma dateRange_bounds:
  "(filter (\<lambda>d. d \<noteq> []) (map date fs) = [] \<longrightarrow>
      earliest (Summary.dateRange (makeSummary fs)) = []
      \<and> latest (Summary.dateRange (makeSummary fs)) = [])
   \<and> (filter (\<lambda>d. d \<noteq> []) (map date fs) \<noteq> [] \<longrightarrow>
      earliest (Summary.dateRange (makeSummary fs)) \<in> set (filter (\<lambda>d. d \<noteq> []) (map date fs))
      \<and> latest (Summary.dateRange (makeSummary fs)) \<in> set (filter (\<lambda>d. d \<noteq> []) (map date fs))
      \<and> (\<forall>d \<in> set (filter (\<lambda>d. d \<noteq> []) (map date fs)).
            earliest (Summary.dateRange (makeSummary fs)) \<le> d
            \<and> d \<le> latest (Summary.dateRange (makeSummary fs))))"
proof -
  let ?ds = "filter (\<lambda>d. d \<noteq> []) (map date fs)"
  let ?r = "Summary.dateRange (makeSummary fs)"
  have srt: "sorted (sort ?ds)" "set (sort ?ds) = set ?ds" by simp_all
  have a: "?ds = [] \<longrightarrow> earliest ?r = [] \<and> latest ?r = []"
    by (simp add: dateRange_sorted)
  have b: "?ds \<noteq> [] \<longrightarrow> earliest ?r \<in> set ?ds \<and> latest ?r \<in> set ?ds
      \<and> (\<forall>d \<in> set ?ds. earliest ?r \<le> d \<and> d \<le> latest ?r)"
  proof
    assume ne: "?ds \<noteq> []"
    then have ne': "sort ?ds \<noteq> []" by (metis srt(2) set_empty)
    then have e: "earliest ?r = hd (sort ?ds)" and l: "latest ?r = last (sort ?ds)"
      by (simp_all only: dateRange_sorted if_False DateRange.select_convs)
    from ne' have "hd (sort ?ds) \<in> set (sort ?ds)" "last (sort ?ds) \<in> set (sort ?ds)"
      by (rule hd_in_set, rule last_in_set)
    with srt(2) have m: "earliest ?r \<in> set ?ds" "latest ?r \<in> set ?ds"
      unfolding e l by blast+
    have "\<forall>d \<in> set ?ds. earliest ?r \<le> d \<and> d \<le> latest ?r"
    proof
      fix d assume "d \<in> set ?ds"
      then have "d \<in> set (sort ?ds)" by (simp only: srt(2))
      with srt(1) show "earliest ?r \<le> d \<and> d \<le> latest ?r"
        unfolding e l by (blast intro: sorted_hd_least sorted_last_greatest)
    qed
    with m show "earliest ?r \<in> set ?ds \<and> latest ?r \<in> set ?ds
      \<and> (\<forall>d \<in> set ?ds. earliest ?r \<le> d \<and> d \<le> latest ?r)" by blast
  qed
  from a b show ?thesis by blast
qed

lemma GET_scans:
  assumes "mt \<noteq> []" "sp \<noteq> []"
  shows "\<exists>resp. GET localeCompare root (Some mt) (Some sp) = Inr resp
     \<and> totalFiles resp = length (scanDirectory VOICE_TAGGING_PATH root (normalizeSubtasks sp))
     \<and> mset (files resp) = mset (scanDirectory VOICE_TAGGING_PATH root (normalizeSubtasks sp))
     \<and> summary resp = makeSummary (scanDirectory VOICE_TAGGING_PATH root (normalizeSubtasks sp))"
  using assms by (simp add: GET_def Let_def mset_sortWith)

text \<open>
  Claim C7. The date range of the summary: among the non-empty \<open>date\<close> strings of
  the records, \<open>earliest\<close> is the least and \<open>latest\<close> the greatest in the
  lexicographic order of strings by code units (not the order of the calendar); both are
  empty when there is no such string. With no record at all every list of the summary is
  empty. The handler answers a request that has both parameters with the summary of the
  records its scan produced: \<open>totalFiles\<close> is their number, \<open>files\<close> has them
  as a multiset, and the date range of the response is the least and the greatest
  non-empty date string of the scanned records; with zero scanned records
  \<open>totalFiles = 0\<close> and the summary is the empty one.
\<close>

theorem summary_date_range:
  "(filter (\<lambda>d. d \<noteq> []) (map date fs) = [] \<longrightarrow>
      earliest (Summary.dateRange (makeSummary fs)) = []
      \<and> latest (Summary.dateRange (makeSummary fs)) = [])
   \<and> (filter (\<lambda>d. d \<noteq> []) (map date fs) \<noteq> [] \<longrightarrow>
      earliest (Summary.dateRange (makeSummary fs)) \<in> set (filter (\<lambda>d. d \<noteq> []) (map date fs))
      \<and> latest (Summary.dateRange (makeSummary fs)) \<in> set (filter (\<lambda>d. d \<noteq> []) (map date fs))
      \<and> (\<forall>d \<in> set (filter (\<lambda>d. d \<noteq> []) (map date fs)).
            earliest (Summary.dateRange (makeSummary fs)) \<le> d
            \<and> d \<le> latest (Summary.dateRange (makeSummary fs))))
   \<and> ((x # xs \<le> y # ys) = (of_char x < (of_char y :: nat) \<or> x = y \<and> xs \<le> ys))
   \<and> ([] \<le> ys) \<and> \<not> (x # xs \<le> [])
   \<and> makeSummary [] = \<lparr> totalEvents = 0, uniqueEventTypes = [], uniqueCameraTypes = [],
        uniqueProjects = [], uniqueVehicles = [],
        dateRange = \<lparr> earliest = [], latest = [] \<rparr> \<rparr>
   \<and> (mt \<noteq> [] \<and> sp \<noteq> [] \<and> scanDirectory VOICE_TAGGING_PATH root (normalizeSubtasks sp) = [] \<longrightarrow>
        (\<exists>resp. GET localeCompare root (Some mt) (Some sp) = Inr resp
           \<and> totalFiles resp = 0 \<and> files resp = [] \<and> summary resp = makeSummary []))
   \<and> (mt \<noteq> [] \<and> sp \<noteq> [] \<longrightarrow>
        (\<exists>resp. GET localeCompare root (Some mt) (Some sp) = Inr resp
           \<and> totalFiles resp = length (scanDirectory VOICE_TAGGING_PATH root (normalizeSubtasks sp))
           \<and> mset (files resp) = mset (scanDirectory VOICE_TAGGING_PATH root (normalizeSubtasks sp))
           \<and> summary resp = makeSummary (scanDirectory VOICE_TAGGING_PATH root (normalizeSubtasks sp))
           \<and> (filter (\<lambda>d. d \<noteq> [])
                 (map date (scanDirectory VOICE_TAGGING_PATH root (normalizeSubtasks sp))) = [] \<longrightarrow>
                earliest (Summary.dateRange (summary resp)) = []
                \<and> latest (Summary.dateRange (summary resp)) = [])
           \<and> (filter (\<lambda>d. d \<noteq> [])
                 (map date (scanDirectory VOICE_TAGGING_PATH root (normalizeSubtasks sp))) \<noteq> [] \<longrightarrow>
                earliest (Summary.dateRange (summary resp))
                  \<in> set (filter (\<lambda>d. d \<noteq> [])
                       (map date (scanDirectory VOICE_TAGGING_PATH root (normalizeSubtasks sp))))
                \<and> latest (Summary.dateRange (summary resp))
                  \<in> set (filter (\<lambda>d. d \<noteq> [])
                       (map date (scanDirectory VOICE_TAGGING_PATH root (normalizeSubtasks sp))))
                \<and> (\<forall>d \<in> set (filter (\<lambda>d. d \<noteq> [])
                       (map date (scanDirectory VOICE_TAGGING_PATH root (normalizeSubtasks sp)))).
                      earliest (Summary.dateRange (summary resp)) \<le> d
                      \<and> d \<le> latest (Summary.dateRange (summary resp))))))"
proof -
  have c: "(x # xs \<le> y # ys) = (of_char x < (of_char y :: nat) \<or> x = y \<and> xs \<le> ys)"
    by (auto simp: less_char_def)
  have d: "[] \<le> ys" "\<not> (x # xs \<le> [])" by simp_all
  have g: "mt \<noteq> [] \<and> sp \<noteq> [] \<and> scanDirectory VOICE_TAGGING_PATH root (normalizeSubtasks sp) = [] \<longrightarrow>
        (\<exists>resp. GET localeCompare root (Some mt) (Some sp) = Inr resp
           \<and> totalFiles resp = 0 \<and> files resp = [] \<and> summary resp = makeSummary [])"
    by (simp add: GET_def Let_def sortWith_def)
  have k: "mt \<noteq> [] \<and> sp \<noteq> [] \<longrightarrow>
        (\<exists>resp. GET localeCompare root (Some mt) (Some sp) = Inr resp
           \<and> totalFiles resp = length (scanDirectory VOICE_TAGGING_PATH root (normalizeSubtasks sp))
           \<and> mset (files resp) = mset (scanDirectory VOICE_TAGGING_PATH root (normalizeSubtasks sp))
           \<and> summary resp = makeSummary (scanDirectory VOICE_TAGGING_PATH root (normalizeSubtasks sp))
           \<and> (filter (\<lambda>d. d \<noteq> [])
                 (map date (scanDirectory VOICE_TAGGING_PATH root (normalizeSubtasks sp))) = [] \<longrightarrow>
                earliest (Summary.dateRange (summary resp)) = []
                \<and> latest (Summary.dateRange (summary resp)) = [])
           \<and> (filter (\<lambda>d. d \<noteq> [])
                 (map date (scanDirectory VOICE_TAGGING_PATH root (normalizeSubtasks sp))) \<noteq> [] \<longrightarrow>
                earliest (Summary.dateRange (summary resp))
                  \<in> set (filter (\<lambda>d. d \<noteq> [])
                       (map date (scanDirectory VOICE_TAGGING_PATH root (normalizeSubtasks sp))))
                \<and> latest (Summary.dateRange (summary resp))
                  \<in> set (filter (\<lambda>d. d \<noteq> [])
                       (map date (scanDirectory VOICE_TAGGING_PATH root (normalizeSubtasks sp))))
                \<and> (\<forall>d \<in> set (filter (\<lambda>d. d \<noteq> [])
                       (map date (scanDirectory VOICE_TAGGING_PATH root (normalizeSubtasks sp)))).
                      earliest (Summary.dateRange (summary resp)) \<le> d
                      \<and> d \<le> latest (Summary.dateRange (summary resp)))))"
  proof
    assume "mt \<noteq> [] \<and> sp \<noteq> []"
    then obtain resp where r: "GET localeCompare root (Some mt) (Some sp) = Inr resp"
      "totalFiles resp = length (scanDirectory VOICE_TAGGING_PATH root (normalizeSubtasks sp))"
      "mset (files resp) = mset (scanDirectory VOICE_TAGGING_PATH root (normalizeSubtasks sp))"
      "summary resp = makeSummary (scanDirectory VOICE_TAGGING_PATH root (normalizeSubtasks sp))"
      using GET_scans [of mt sp localeCompare root] by blast
    show "\<exists>resp. GET localeCompare root (Some mt) (Some sp) = Inr resp
           \<and> totalFiles resp = length (scanDirectory VOICE_TAGGING_PATH root (normalizeSubtasks sp))
           \<and> mset (files resp) = mset (scanDirectory VOICE_TAGGING_PATH root (normalizeSubtasks sp))
           \<and> summary resp = makeSummary (scanDirectory VOICE_TAGGING_PATH root (normalizeSubtasks sp))
           \<and> (filter (\<lambda>d. d \<noteq> [])
                 (map date (scanDirectory VOICE_TAGGING_PATH root (normalizeSubtasks sp))) = [] \<longrightarrow>
                earliest (Summary.dateRange (summary resp)) = []
                \<and> latest (Summary.dateRange (summary resp)) = [])
           \<and> (filter (\<lambda>d. d \<noteq> [])
                 (map date (scanDirectory VOICE_TAGGING_PATH root (normalizeSubtasks sp))) \<noteq> [] \<longrightarrow>
                earliest (Summary.dateRange (summary resp))
                  \<in> set (filter (\<lambda>d. d \<noteq> [])
                       (map date (scanDirectory VOICE_TAGGING_PATH root (normalizeSubtasks sp))))
                \<and> latest (Summary.dateRange (summary resp))
                  \<in> set (filter (\<lambda>d. d \<noteq> [])
                       (map date (scanDirectory VOICE_TAGGING_PATH root (normalizeSubtasks sp))))
                \<and> (\<forall>d \<in> set (filter (\<lambda>d. d \<noteq> [])
                       (map date (scanDirectory VOICE_TAGGING_PATH root (normalizeSubtasks sp)))).
                      earliest (Summary.dateRange (summary resp)) \<le> d
                      \<and> d \<le> latest (Summary.dateRange (summary resp))))"
      apply (rule exI [of _ resp])
      apply (simp only: r simp_thms)
      apply (rule dateRange_bounds)
      done
  qed
  from dateRange_bounds [of fs] c d makeSummary_Nil g k show ?thesis by blast
qed

theorem summary_date_range_witness:
  "map date (scanDirectory VOICE_TAGGING_PATH
      (Listing [FileEntry ''PRJ_VEH_310124_120000_5_020224_DATACO-42.jump'' (Some (0, 0)) (Some []),
                FileEntry ''PRJ_VEH_010224_120000_5_020224_DATACO-42.jump'' (Some (0, 0)) (Some [])])
      [''42'']) = [''31/01/2024'', ''01/02/2024'']
   \<and> Summary.dateRange (makeSummary (scanDirectory VOICE_TAGGING_PATH
      (Listing [FileEntry ''PRJ_VEH_310124_120000_5_020224_DATACO-42.jump'' (Some (0, 0)) (Some []),
                FileEntry ''PRJ_VEH_010224_120000_5_020224_DATACO-42.jump'' (Some (0, 0)) (Some [])])
      [''42''])) = \<lparr> earliest = ''01/02/2024'', latest = ''31/01/2024'' \<rparr>
   \<and> (case GET codeUnitCompare
             (Listing [FileEntry ''PRJ_VEH_310124_120000_5_020224_DATACO-42.jump'' (Some (0, 0)) (Some []),
                       FileEntry ''PRJ_VEH_010224_120000_5_020224_DATACO-42.jump'' (Some (0, 0)) (Some [])])
             (Some ''DATACO-1'') (Some ''DATACO-42'') of
          Inl e \<Rightarrow> None
        | Inr resp \<Rightarrow> Some (totalFiles resp, map fileName (files resp),
              Summary.dateRange (summary resp)))
      = Some (2, [''PRJ_VEH_010224_120000_5_020224_DATACO-42.jump'',
                  ''PRJ_VEH_310124_120000_5_020224_DATACO-42.jump''],
              \<lparr> earliest = ''01/02/2024'', latest = ''31/01/2024'' \<rparr>)
   \<and> GET codeUnitCompare (Listing [FileEntry ''notes.txt'' (Some (0, 0)) (Some [])])
        (Some ''DATACO-1'') (Some ''DATACO-42'')
      = Inr \<lparr> mainTicket = ''DATACO-1'', subtasks = [''DATACO-42''], totalFiles = 0,
               projectFolders = [], files = [],
               summary = \<lparr> totalEvents = 0, uniqueEventTypes = [], uniqueCameraTypes = [],
                 uniqueProjects = [], uniqueVehicles = [],
                 dateRange = \<lparr> earliest = [], latest = [] \<rparr> \<rparr> \<rparr>"
proof -
  let ?fs = "scanDirectory VOICE_TAGGING_PATH
      (Listing [FileEntry ''PRJ_VEH_310124_120000_5_020224_DATACO-42.jump'' (Some (0, 0)) (Some []),
                FileEntry ''PRJ_VEH_010224_120000_5_020224_DATACO-42.jump'' (Some (0, 0)) (Some [])])
      [''42'']"
  let ?root = "Listing [FileEntry ''notes.txt'' (Some (0, 0)) (Some [])]"
  have ds: "map date ?fs = [''31/01/2024'', ''01/02/2024'']" by code_simp
  have r: "Summary.dateRange (makeSummary ?fs) = \<lparr> earliest = ''01/02/2024'', latest = ''31/01/2024'' \<rparr>"
    by code_simp
  have none: "''DATACO-1'' \<noteq> [] \<and> ''DATACO-42'' \<noteq> []
      \<and> scanDirectory VOICE_TAGGING_PATH ?root (normalizeSubtasks ''DATACO-42'') = []"
    by code_simp
  have g: "GET codeUnitCompare ?root (Some ''DATACO-1'') (Some ''DATACO-42'')
      = Inr \<lparr> mainTicket = ''DATACO-1'', subtasks = [''DATACO-42''], totalFiles = 0,
               projectFolders = [], files = [],
               summary = \<lparr> totalEvents = 0, uniqueEventTypes = [], uniqueCameraTypes = [],
                 uniqueProjects = [], uniqueVehicles = [],
                 dateRange = \<lparr> earliest = [], latest = [] \<rparr> \<rparr> \<rparr>"
    by code_simp
  have g2: "(case GET codeUnitCompare
             (Listing [FileEntry ''PRJ_VEH_310124_120000_5_020224_DATACO-42.jump'' (Some (0, 0)) (Some []),
                       FileEntry ''PRJ_VEH_010224_120000_5_020224_DATACO-42.jump'' (Some (0, 0)) (Some [])])
             (Some ''DATACO-1'') (Some ''DATACO-42'') of
          Inl e \<Rightarrow> None
        | Inr resp \<Rightarrow> Some (totalFiles resp, map fileName (files resp),
              Summary.dateRange (summary resp)))
      = Some (2, [''PRJ_VEH_010224_120000_5_020224_DATACO-42.jump'',
                  ''PRJ_VEH_310124_120000_5_020224_DATACO-42.jump''],
              \<lparr> earliest = ''01/02/2024'', latest = ''31/01/2024'' \<rparr>)"
    by code_simp
  from summary_date_range [of ?fs _ _ _ _ "''DATACO-1''" "''DATACO-42''" ?root codeUnitCompare]
    summary_date_range [of ?fs _ _ _ _ "''DATACO-1''" "''DATACO-42''"
      "Listing [FileEntry ''PRJ_VEH_310124_120000_5_020224_DATACO-42.jump'' (Some (0, 0)) (Some []),
                FileEntry ''PRJ_VEH_010224_120000_5_020224_DATACO-42.jump'' (Some (0, 0)) (Some [])]"
      codeUnitCompare]
    ds r none g g2
  show ?thesis by (simp only: simp_thms)
qed

section \<open>Filtering and sorting\<close>

lemma set_insertBy: "set (insertBy cmp x ys) = insert x (set ys)"
  by (induction ys) auto

lemma consistent_total: "consistent cmp \<Longrightarrow> \<not> cmp a b \<le> 0 \<Longrightarrow> cmp b a \<le> 0"
  unfolding consistent_def by (metis less_le_not_le linorder_not_le)

lemma consistent_trans: "consistent cmp \<Longrightarrow> cmp a b \<le> 0 \<Longrightarrow> cmp b c \<le> 0 \<Longrightarrow> cmp a c \<le> 0"
  unfolding consistent_def by blast

lemma sorted_insertBy:
  assumes "consistent cmp" "sorted_wrt (\<lambda>a b. cmp a b \<le> 0) ys"
  shows "sorted_wrt (\<lambda>a b. cmp a b \<le> 0) (insertBy cmp x ys)"
  using assms(2)
proof (induction ys)
  case Nil
  then show ?case by simp
next
  case (Cons y ys)
  show ?case
  proof (cases "cmp x y \<le> 0")
    case True
    have "\<forall>z \<in> set ys. cmp x z \<le> 0"
    proof
      fix z assume "z \<in> set ys"
      with Cons.prems have "cmp y z \<le> 0" by simp
      with True show "cmp x z \<le> 0" by (rule consistent_trans [OF assms(1)])
    qed
    with True Cons.prems show ?thesis by simp
  next
    case False
    then have "cmp y x \<le> 0" by (rule consistent_total [OF assms(1)])
    with False Cons show ?thesis by (auto simp: set_insertBy)
  qed
qed

lemma sorted_sortWith:
  "consistent cmp \<Longrightarrow> sorted_wrt (\<lambda>a b. cmp a b \<le> 0) (sortWith cmp xs)"
  unfolding sortWith_def by (induction xs) (simp_all add: sorted_insertBy)

lemma consistent_on_field: "consistent cmp \<Longrightarrow> consistent (\<lambda>a b. cmp (g a) (g b))"
  unfolding consistent_def by blast

lemma consistent_difference: "consistent (\<lambda>a b. int (g a) - int (g b))"
  unfolding consistent_def by auto

lemma consistent_negated:
  assumes "consistent cmp"
  shows "consistent (\<lambda>a b. - cmp a b)"
  unfolding consistent_def
proof (intro conjI allI impI)
  fix a b
  from assms have "(cmp b a < 0) = (cmp a b > 0)" unfolding consistent_def by blast
  then show "(- cmp a b < 0) = (0 < - cmp b a)" by auto
next
  fix a b c
  assume "- cmp a b \<le> 0 \<and> - cmp b c \<le> 0"
  then have "\<not> cmp a b < 0" "\<not> cmp b c < 0" by auto
  with assms have "cmp b a \<le> 0" "cmp c b \<le> 0"
    unfolding consistent_def by (metis linorder_not_le)+
  with assms have "cmp c a \<le> 0" by (meson consistent_trans)
  with assms have "\<not> cmp a c < 0" unfolding consistent_def by (metis linorder_not_le)
  then show "- cmp a c \<le> 0" by simp
qed

lemma consistent_if:
  "consistent f \<Longrightarrow> consistent g \<Longrightarrow> consistent (\<lambda>a b. if P then f a b else g a b)"
  by (cases P) simp_all

lemma consistent_compareFiles:
  assumes "consistent localeCompare"
  shows "consistent (compareFiles localeCompare filters)"
proof -
  let ?c = "\<lambda>a b.
        (if sortBy filters = ''fileName'' then localeCompare (fileName a) (fileName b)
         else if sortBy filters = ''date'' then localeCompare (date a) (date b)
         else if sortBy filters = ''project'' then localeCompare (project a) (project b)
         else if sortBy filters = ''vehicle'' then localeCompare (vehicle a) (vehicle b)
         else if sortBy filters = ''eventCount'' then int (eventCount a) - int (eventCount b)
         else localeCompare (fileName a) (fileName b))"
  have c: "consistent ?c"
    by (intro consistent_if consistent_on_field [OF assms] consistent_difference)
  show ?thesis
  proof (cases "sortOrder filters")
    case Asc
    then have "compareFiles localeCompare filters = ?c"
      by (intro ext) (simp add: compareFiles_def Let_def)
    with c show ?thesis by simp
  next
    case Desc
    then have "compareFiles localeCompare filters = (\<lambda>a b. - ?c a b)"
      by (intro ext) (simp add: compareFiles_def Let_def)
    with consistent_negated [OF c] show ?thesis by simp
  qed
qed

lemma passesFilters_unconstrained:
  assumes "selectedSubtasks filters = []" "selectedEventTypes filters = []"
    "selectedCameraTypes filters = []" "selectedProjects filters = []"
    "selectedVehicles filters = []"
  shows "passesFilters filters file"
  using assms by (simp add: passesFilters_def)

lemma filteredFiles_Some:
  "filteredFiles localeCompare (Some a) filters h =
     (nextFree h,
      \<lparr> cells = (cells h)(nextFree h :=
           sortWith (compareFiles localeCompare filters) (filter (passesFilters filters) (cells h a))),
        nextFree = Suc (nextFree h) \<rparr>)"
  by (simp add: filteredFiles_def arrayFilter_def arraySort_def)

lemma consistent_by_eventCount:
  assumes "sortBy filters = ''eventCount''"
  shows "consistent (compareFiles localeCompare filters)"
proof (cases "sortOrder filters")
  case Asc
  with assms have "compareFiles localeCompare filters = (\<lambda>a b. int (eventCount a) - int (eventCount b))"
    by (intro ext) (simp add: compareFiles_def Let_def)
  with consistent_difference [of eventCount] show ?thesis by simp
next
  case Desc
  with assms have "compareFiles localeCompare filters
      = (\<lambda>a b. - (int (eventCount a) - int (eventCount b)))"
    by (intro ext) (simp add: compareFiles_def Let_def)
  with consistent_negated [OF consistent_difference [of eventCount]] show ?thesis by simp
qed

lemma sorted_by_key:
  assumes "consistent (compareFiles localeCompare filters)"
    and "\<And>x y. (compareFiles localeCompare filters x y \<le> 0) = R x y"
  shows "sorted_wrt R (sortWith (compareFiles localeCompare filters) recs)"
  using sorted_sortWith [OF assms(1), of recs] by (simp only: assms(2))

text \<open>
  Claim C6. With the five constraint lists empty, the filter keeps every record: the
  array returned has the records of the input array, as a multiset, and it is ordered by
  the active sort specification. For the keys \<open>fileName\<close>, \<open>date\<close>,
  \<open>project\<close> and \<open>vehicle\<close> the records are in the order of
  \<open>localeCompare\<close> on that field (for a consistent \<open>localeCompare\<close>), for
  \<open>eventCount\<close> in the order of the numbers, and for any other key in the order of
  \<open>fileName\<close>; ascending puts the smaller first and descending the greater.
\<close>

theorem filter_unconstrained:
  assumes "selectedSubtasks filters = []" "selectedEventTypes filters = []"
    "selectedCameraTypes filters = []" "selectedProjects filters = []"
    "selectedVehicles filters = []"
    and "filteredFiles localeCompare (Some a) filters h = (out, h')"
  shows "mset (cells h' out) = mset (cells h a)
     \<and> (consistent localeCompare \<longrightarrow>
          sorted_wrt (\<lambda>x y. compareFiles localeCompare filters x y \<le> 0) (cells h' out))
     \<and> (consistent localeCompare \<and> sortOrder filters = Asc \<longrightarrow>
          (sortBy filters = ''fileName'' \<longrightarrow>
             sorted_wrt (\<lambda>x y. localeCompare (fileName x) (fileName y) \<le> 0) (cells h' out))
          \<and> (sortBy filters = ''date'' \<longrightarrow>
             sorted_wrt (\<lambda>x y. localeCompare (date x) (date y) \<le> 0) (cells h' out))
          \<and> (sortBy filters = ''project'' \<longrightarrow>
             sorted_wrt (\<lambda>x y. localeCompare (project x) (project y) \<le> 0) (cells h' out))
          \<and> (sortBy filters = ''vehicle'' \<longrightarrow>
             sorted_wrt (\<lambda>x y. localeCompare (vehicle x) (vehicle y) \<le> 0) (cells h' out))
          \<and> (sortBy filters \<notin> {''fileName'', ''date'', ''project'', ''vehicle'', ''eventCount''} \<longrightarrow>
             sorted_wrt (\<lambda>x y. localeCompare (fileName x) (fileName y) \<le> 0) (cells h' out)))
     \<and> (consistent localeCompare \<and> sortOrder filters = Desc \<longrightarrow>
          (sortBy filters = ''fileName'' \<longrightarrow>
             sorted_wrt (\<lambda>x y. 0 \<le> localeCompare (fileName x) (fileName y)) (cells h' out))
          \<and> (sortBy filters = ''date'' \<longrightarrow>
             sorted_wrt (\<lambda>x y. 0 \<le> localeCompare (date x) (date y)) (cells h' out))
          \<and> (sortBy filters = ''project'' \<longrightarrow>
             sorted_wrt (\<lambda>x y. 0 \<le> localeCompare (project x) (project y)) (cells h' out))
          \<and> (sortBy filters = ''vehicle'' \<longrightarrow>
             sorted_wrt (\<lambda>x y. 0 \<le> localeCompare (vehicle x) (vehicle y)) (cells h' out))
          \<and> (sortBy filters \<notin> {''fileName'', ''date'', ''project'', ''vehicle'', ''eventCount''} \<longrightarrow>
             sorted_wrt (\<lambda>x y. 0 \<le> localeCompare (fileName x) (fileName y)) (cells h' out)))
     \<and> (sortBy filters = ''eventCount'' \<and> sortOrder filters = Asc \<longrightarrow>
          sorted_wrt (\<lambda>x y. eventCount x \<le> eventCount y) (cells h' out))
     \<and> (sortBy filters = ''eventCount'' \<and> sortOrder filters = Desc \<longrightarrow>
          sorted_wrt (\<lambda>x y. eventCount y \<le> eventCount x) (cells h' out))"
proof -
  have "filter (passesFilters filters) (cells h a) = cells h a"
    using passesFilters_unconstrained [OF assms(1-5)] by simp
  with assms(6) have out: "cells h' out = sortWith (compareFiles localeCompare filters) (cells h a)"
    by (auto simp: filteredFiles_Some)
  have m: "mset (cells h' out) = mset (cells h a)"
    unfolding out by (simp add: mset_sortWith)
  have s: "consistent localeCompare \<longrightarrow>
          sorted_wrt (\<lambda>x y. compareFiles localeCompare filters x y \<le> 0) (cells h' out)"
    unfolding out by (simp add: sorted_sortWith consistent_compareFiles)
  have asc: "consistent localeCompare \<and> sortOrder filters = Asc \<longrightarrow>
          (sortBy filters = ''fileName'' \<longrightarrow>
             sorted_wrt (\<lambda>x y. localeCompare (fileName x) (fileName y) \<le> 0) (cells h' out))
          \<and> (sortBy filters = ''date'' \<longrightarrow>
             sorted_wrt (\<lambda>x y. localeCompare (date x) (date y) \<le> 0) (cells h' out))
          \<and> (sortBy filters = ''project'' \<longrightarrow>
             sorted_wrt (\<lambda>x y. localeCompare (project x) (project y) \<le> 0) (cells h' out))
          \<and> (sortBy filters = ''vehicle'' \<longrightarrow>
             sorted_wrt (\<lambda>x y. localeCompare (vehicle x) (vehicle y) \<le> 0) (cells h' out))
          \<and> (sortBy filters \<notin> {''fileName'', ''date'', ''project'', ''vehicle'', ''eventCount''} \<longrightarrow>
             sorted_wrt (\<lambda>x y. localeCompare (fileName x) (fileName y) \<le> 0) (cells h' out))"
  proof
    assume c: "consistent localeCompare \<and> sortOrder filters = Asc"
    then have cc: "consistent (compareFiles localeCompare filters)"
      by (simp add: consistent_compareFiles)
    from c show "(sortBy filters = ''fileName'' \<longrightarrow>
             sorted_wrt (\<lambda>x y. localeCompare (fileName x) (fileName y) \<le> 0) (cells h' out))
          \<and> (sortBy filters = ''date'' \<longrightarrow>
             sorted_wrt (\<lambda>x y. localeCompare (date x) (date y) \<le> 0) (cells h' out))
          \<and> (sortBy filters = ''project'' \<longrightarrow>
             sorted_wrt (\<lambda>x y. localeCompare (project x) (project y) \<le> 0) (cells h' out))
          \<and> (sortBy filters = ''vehicle'' \<longrightarrow>
             sorted_wrt (\<lambda>x y. localeCompare (vehicle x) (vehicle y) \<le> 0) (cells h' out))
          \<and> (sortBy filters \<notin> {''fileName'', ''date'', ''project'', ''vehicle'', ''eventCount''} \<longrightarrow>
             sorted_wrt (\<lambda>x y. localeCompare (fileName x) (fileName y) \<le> 0) (cells h' out))"
      unfolding out
      by (intro conjI impI sorted_by_key [OF cc]) (simp_all add: compareFiles_def Let_def)
  qed
  have desc: "consistent localeCompare \<and> sortOrder filters = Desc \<longrightarrow>
          (sortBy filters = ''fileName'' \<longrightarrow>
             sorted_wrt (\<lambda>x y. 0 \<le> localeCompare (fileName x) (fileName y)) (cells h' out))
          \<and> (sortBy filters = ''date'' \<longrightarrow>
             sorted_wrt (\<lambda>x y. 0 \<le> localeCompare (date x) (date y)) (cells h' out))
          \<and> (sortBy filters = ''project'' \<longrightarrow>
             sorted_wrt (\<lambda>x y. 0 \<le> localeCompare (project x) (project y)) (cells h' out))
          \<and> (sortBy filters = ''vehicle'' \<longrightarrow>
             sorted_wrt (\<lambda>x y. 0 \<le> localeCompare (vehicle x) (vehicle y)) (cells h' out))
          \<and> (sortBy filters \<notin> {''fileName'', ''date'', ''project'', ''vehicle'', ''eventCount''} \<longrightarrow>
             sorted_wrt (\<lambda>x y. 0 \<le> localeCompare (fileName x) (fileName y)) (cells h' out))"
  proof
    assume c: "consistent localeCompare \<and> sortOrder filters = Desc"
    then have cc: "consistent (compareFiles localeCompare filters)"
      by (simp add: consistent_compareFiles)
    from c show "(sortBy filters = ''fileName'' \<longrightarrow>
             sorted_wrt (\<lambda>x y. 0 \<le> localeCompare (fileName x) (fileName y)) (cells h' out))
          \<and> (sortBy filters = ''date'' \<longrightarrow>
             sorted_wrt (\<lambda>x y. 0 \<le> localeCompare (date x) (date y)) (cells h' out))
          \<and> (sortBy filters = ''project'' \<longrightarrow>
             sorted_wrt (\<lambda>x y. 0 \<le> localeCompare (project x) (project y)) (cells h' out))
          \<and> (sortBy filters = ''vehicle'' \<longrightarrow>
             sorted_wrt (\<lambda>x y. 0 \<le> localeCompare (vehicle x) (vehicle y)) (cells h' out))
          \<and> (sortBy filters \<notin> {''fileName'', ''date'', ''project'', ''vehicle'', ''eventCount''} \<longrightarrow>
             sorted_wrt (\<lambda>x y. 0 \<le> localeCompare (fileName x) (fileName y)) (cells h' out))"
      unfolding out
      by (intro conjI impI sorted_by_key [OF cc]) (simp_all add: compareFiles_def Let_def)
  qed
  have ea: "sortBy filters = ''eventCount'' \<and> sortOrder filters = Asc \<longrightarrow>
          sorted_wrt (\<lambda>x y. eventCount x \<le> eventCount y) (cells h' out)"
  proof
    assume c: "sortBy filters = ''eventCount'' \<and> sortOrder filters = Asc"
    then have cc: "consistent (compareFiles localeCompare filters)"
      by (simp add: consistent_by_eventCount)
    from c show "sorted_wrt (\<lambda>x y. eventCount x \<le> eventCount y) (cells h' out)"
      unfolding out by (intro sorted_by_key [OF cc]) (simp add: compareFiles_def Let_def)
  qed
  have ed: "sortBy filters = ''eventCount'' \<and> sortOrder filters = Desc \<longrightarrow>
          sorted_wrt (\<lambda>x y. eventCount y \<le> eventCount x) (cells h' out)"
  proof
    assume c: "sortBy filters = ''eventCount'' \<and> sortOrder filters = Desc"
    then have cc: "consistent (compareFiles localeCompare filters)"
      by (simp add: consistent_by_eventCount)
    from c show "sorted_wrt (\<lambda>x y. eventCount y \<le> eventCount x) (cells h' out)"
      unfolding out by (intro sorted_by_key [OF cc]) (simp add: compareFiles_def Let_def)
  qed
  from m s asc desc ea ed show ?thesis by blast
qed

text \<open>
  Claim C9. The filter and sort engine does not change its input: for an allocated input
  array, after the call the input array has the same records in the same order, the
  result is a new array at a different address, and every array allocated before is
  unchanged. The sort works in place on the new array only.
\<close>

theorem filter_no_mutation:
  assumes "a < nextFree h" "filteredFiles localeCompare (Some a) filters h = (out, h')"
  shows "cells h' a = cells h a \<and> out \<noteq> a \<and> out = nextFree h
     \<and> (\<forall>b < nextFree h. cells h' b = cells h b)
     \<and> cells h' out
        = sortWith (compareFiles localeCompare filters) (filter (passesFilters filters) (cells h a))
     \<and> (\<forall>b < nextFree h. cells (snd (filteredFiles localeCompare None filters h)) b = cells h b)"
proof -
  from assms have "cells h' a = cells h a \<and> out \<noteq> a \<and> out = nextFree h
     \<and> (\<forall>b < nextFree h. cells h' b = cells h b)
     \<and> cells h' out
        = sortWith (compareFiles localeCompare filters) (filter (passesFilters filters) (cells h a))"
    by (auto simp: filteredFiles_Some)
  moreover have "\<forall>b < nextFree h. cells (snd (filteredFiles localeCompare None filters h)) b = cells h b"
    by (simp add: filteredFiles_def arrayEmpty_def)
  ultimately show ?thesis by blast
qed

lemma consistent_codeUnitCompare: "consistent codeUnitCompare"
  by (auto simp: consistent_def codeUnitCompare_def)

theorem filter_unconstrained_witness:
  "consistent codeUnitCompare
   \<and> map fileName (cells sampleStore 0)
      = [''A_V_010124_120000_5_020124_DATACO-1.jump'', ''B_V_020124_120000_5_020124_DATACO-2.jump'']
   \<and> map eventCount (cells sampleStore 0) = [1, 0]
   \<and> fst (filteredFiles codeUnitCompare (Some 0) (unconstrained ''eventCount'' Asc) sampleStore) = 1
   \<and> map fileName
        (cells (snd (filteredFiles codeUnitCompare (Some 0) (unconstrained ''eventCount'' Asc) sampleStore)) 1)
      = [''B_V_020124_120000_5_020124_DATACO-2.jump'', ''A_V_010124_120000_5_020124_DATACO-1.jump'']
   \<and> mset (cells (snd (filteredFiles codeUnitCompare (Some 0) (unconstrained ''eventCount'' Asc) sampleStore)) 1)
      = mset (cells sampleStore 0)
   \<and> map fileName
        (cells (snd (filteredFiles codeUnitCompare (Some 0) (unconstrained ''eventCount'' Desc) sampleStore)) 1)
      = [''A_V_010124_120000_5_020124_DATACO-1.jump'', ''B_V_020124_120000_5_020124_DATACO-2.jump'']
   \<and> map fileName
        (cells (snd (filteredFiles codeUnitCompare (Some 0) (unconstrained ''fileName'' Asc) sampleStore)) 1)
      = [''A_V_010124_120000_5_020124_DATACO-1.jump'', ''B_V_020124_120000_5_020124_DATACO-2.jump'']
   \<and> map fileName
        (cells (snd (filteredFiles codeUnitCompare (Some 0) (unconstrained ''date'' Desc) sampleStore)) 1)
      = [''B_V_020124_120000_5_020124_DATACO-2.jump'', ''A_V_010124_120000_5_020124_DATACO-1.jump'']
   \<and> sorted_wrt (\<lambda>x y. 0 \<le> codeUnitCompare (date x) (date y))
        (cells (snd (filteredFiles codeUnitCompare (Some 0) (unconstrained ''date'' Desc) sampleStore)) 1)"
proof -
  let ?f = "unconstrained ''eventCount'' Asc"
  let ?x = "filteredFiles codeUnitCompare (Some 0) ?f sampleStore"
  have e: "selectedSubtasks ?f = []" "selectedEventTypes ?f = []" "selectedCameraTypes ?f = []"
    "selectedProjects ?f = []" "selectedVehicles ?f = []"
    by (simp_all add: unconstrained_def)
  have x: "?x = (fst ?x, snd ?x)" by simp
  have n0: "map fileName (cells sampleStore 0)
      = [''A_V_010124_120000_5_020124_DATACO-1.jump'', ''B_V_020124_120000_5_020124_DATACO-2.jump'']"
    by code_simp
  have c0: "map eventCount (cells sampleStore 0) = [1, 0]" by code_simp
  have o: "fst ?x = 1" by code_simp
  have n1: "map fileName (cells (snd ?x) 1)
      = [''B_V_020124_120000_5_020124_DATACO-2.jump'', ''A_V_010124_120000_5_020124_DATACO-1.jump'']"
    by code_simp
  from filter_unconstrained [OF e x] have "mset (cells (snd ?x) (fst ?x)) = mset (cells sampleStore 0)"
    by blast
  then have m: "mset (cells (snd ?x) 1) = mset (cells sampleStore 0)" by (simp only: o)
  have n2: "map fileName
        (cells (snd (filteredFiles codeUnitCompare (Some 0) (unconstrained ''eventCount'' Desc) sampleStore)) 1)
      = [''A_V_010124_120000_5_020124_DATACO-1.jump'', ''B_V_020124_120000_5_020124_DATACO-2.jump'']"
    by code_simp
  have n3: "map fileName
        (cells (snd (filteredFiles codeUnitCompare (Some 0) (unconstrained ''fileName'' Asc) sampleStore)) 1)
      = [''A_V_010124_120000_5_020124_DATACO-1.jump'', ''B_V_020124_120000_5_020124_DATACO-2.jump'']"
    by code_simp
  have n4: "map fileName
        (cells (snd (filteredFiles codeUnitCompare (Some 0) (unconstrained ''date'' Desc) sampleStore)) 1)
      = [''B_V_020124_120000_5_020124_DATACO-2.jump'', ''A_V_010124_120000_5_020124_DATACO-1.jump'']"
    by code_simp
  let ?g = "unconstrained ''date'' Desc"
  let ?y = "filteredFiles codeUnitCompare (Some 0) ?g sampleStore"
  have eg: "selectedSubtasks ?g = []" "selectedEventTypes ?g = []" "selectedCameraTypes ?g = []"
    "selectedProjects ?g = []" "selectedVehicles ?g = []"
    by (simp_all add: unconstrained_def)
  have y: "?y = (fst ?y, snd ?y)" by simp
  have oy: "fst ?y = 1" by code_simp
  have kd: "sortBy ?g = ''date''" "sortOrder ?g = Desc" by (simp_all add: unconstrained_def)
  from filter_unconstrained [OF eg y] consistent_codeUnitCompare kd
  have "sorted_wrt (\<lambda>x y. 0 \<le> codeUnitCompare (date x) (date y)) (cells (snd ?y) (fst ?y))"
    by blast
  then have sd: "sorted_wrt (\<lambda>x y. 0 \<le> codeUnitCompare (date x) (date y)) (cells (snd ?y) 1)"
    by (simp only: oy)
  from consistent_codeUnitCompare n0 c0 o n1 m n2 n3 n4 sd show ?thesis by blast
qed

theorem filter_no_mutation_witness:
  "0 < nextFree sampleStore
   \<and> fst (filteredFiles codeUnitCompare (Some 0) (unconstrained ''fileName'' Desc) sampleStore) \<noteq> 0
   \<and> cells (snd (filteredFiles codeUnitCompare (Some 0) (unconstrained ''fileName'' Desc) sampleStore)) 0
      = cells sampleStore 0
   \<and> map fileName
        (cells (snd (filteredFiles codeUnitCompare (Some 0) (unconstrained ''fileName'' Desc) sampleStore)) 1)
      = [''B_V_020124_120000_5_020124_DATACO-2.jump'', ''A_V_010124_120000_5_020124_DATACO-1.jump'']
   \<and> map fileName (cells sampleStore 0)
      = [''A_V_010124_120000_5_020124_DATACO-1.jump'', ''B_V_020124_120000_5_020124_DATACO-2.jump'']"
proof -
  let ?f = "unconstrained ''fileName'' Desc"
  let ?x = "filteredFiles codeUnitCompare (Some 0) ?f sampleStore"
  have a: "0 < nextFree sampleStore" by (simp add: sampleStore_def)
  have x: "?x = (fst ?x, snd ?x)" by simp
  have n0: "map fileName (cells sampleStore 0)
      = [''A_V_010124_120000_5_020124_DATACO-1.jump'', ''B_V_020124_120000_5_020124_DATACO-2.jump'']"
    by code_simp
  have n1: "map fileName (cells (snd ?x) 1)
      = [''B_V_020124_120000_5_020124_DATACO-2.jump'', ''A_V_010124_120000_5_020124_DATACO-1.jump'']"
    by code_simp
  from filter_no_mutation [OF a x]
  have "cells (snd ?x) 0 = cells sampleStore 0" "fst ?x \<noteq> 0" by blast+
  with a n0 n1 show ?thesis by blast
qed

end
